theory Spec2Isabelle
  imports Complex_Main
begin

section \<open>The agent orchestrator of \<^verbatim>\<open>src/services/AgentOrchestrator.js\<close>\<close>

text \<open>
  The orchestrator keeps three JavaScript \<^verbatim>\<open>Map\<close>s (\<^verbatim>\<open>agents\<close>, \<^verbatim>\<open>agentInstances\<close>,
  \<^verbatim>\<open>coordinationRules\<close>), a conflict resolver and a performance tracker. Its collaborators
  are an injected database handle \<^verbatim>\<open>db\<close>, a socket server \<^verbatim>\<open>io\<close>, the clock, \<^verbatim>\<open>uuidv4\<close> and
  the \<^verbatim>\<open>execute\<close> method of the agent classes. The embedding passes the orchestrator as a
  record and makes every collaborator explicit:
  \<^item> every \<^verbatim>\<open>db.query\<close> the orchestrator issues is appended to \<open>db_log\<close>; whether the query
    resolves or rejects is read from the script \<open>db_outcomes\<close> (an exhausted script means
    that the query resolves);
  \<^item> every \<^verbatim>\<open>emit\<close> is appended to \<open>emitted\<close>;
  \<^item> \<^verbatim>\<open>uuidv4()\<close> returns \<open>uuid_counter\<close> and increments it;
  \<^item> what one call of \<^verbatim>\<open>execute\<close> does (the value it returns or the error it throws, the
    elapsed time, the clock readings) is the argument \<open>invocation\<close> of the run operation;
  \<^item> counts are natural numbers; the two averages of \<^verbatim>\<open>BaseAgent.metrics\<close> are rationals
    and their arithmetic is exact, where the code rounds every operation to a double. The
    two agree as long as every intermediate value is a double, as it is for the values that
    the properties below state (the rates 0, 1 and 0.5 and small counts).
\<close>

subsection \<open>Data\<close>

type_synonym user_id = string
type_synonym agent_id = string
type_synonym instance_id = nat
type_synonym timestamp = nat
type_synonym config = "(string \<times> string) list"

text \<open>The four status strings \<^verbatim>\<open>'idle'\<close>, \<^verbatim>\<open>'running'\<close>, \<^verbatim>\<open>'paused'\<close>, \<^verbatim>\<open>'error'\<close>.\<close>

datatype status = Idle | Running | Paused | Error

text \<open>The classes that \<^verbatim>\<open>getAgentClass\<close> knows; all extend \<^verbatim>\<open>BaseAgent\<close>.\<close>

datatype agent_class = MeetingAgent | MailSummarizerAgent | ReportGeneratorAgent | TaskRouterAgent

text \<open>\<^verbatim>\<open>BaseAgent.metrics\<close>.\<close>

record metrics =
  totalRuns :: nat
  successRate :: rat
  averageExecutionTime :: rat
  lastRun :: "timestamp option"

text \<open>An object of a subclass of \<^verbatim>\<open>BaseAgent\<close>; \<open>cls\<close> is the class it was built from.\<close>

record agent_instance =
  inst_id :: instance_id
  userId :: user_id
  agentId :: agent_id
  config :: config
  cls :: agent_class
  status :: status
  metrics :: metrics

text \<open>A row of the table \<^verbatim>\<open>agents\<close> and an entry of the map \<^verbatim>\<open>this.agents\<close>. The entry's own
  map \<^verbatim>\<open>instances\<close> holds references to the objects of \<^verbatim>\<open>agentInstances\<close>: it is kept as the
  list of their ids.\<close>

record agent_def =
  def_id :: agent_id
  def_type :: string
  def_configuration :: config

record agent_entry =
  entry_definition :: agent_def
  entry_class :: agent_class
  entry_instances :: "instance_id list"

record coordination_rule =
  dependencies :: "agent_id list"
  conflicts :: "agent_id list"
  priority :: nat

record conflict =
  conflict_type :: string
  instance1 :: agent_instance
  instance2 :: agent_instance
  severity :: string

record resolution =
  action :: string
  target :: "instance_id option"

text \<open>The object that \<^verbatim>\<open>execute\<close> returns. The orchestrator reads two of its properties,
  \<^verbatim>\<open>error\<close> and \<^verbatim>\<open>executionTime\<close> (\<open>None\<close> when the property is absent); the rest is the
  payload.\<close>

record exec_result =
  result_error :: "string option"
  result_executionTime :: "nat option"
  result_payload :: string

text \<open>\<^verbatim>\<open>PerformanceTracker.metrics\<close> holds one of these for each instance id.\<close>

record tracker_metrics =
  totalExecutions :: nat
  successfulExecutions :: nat
  totalExecutionTime :: nat
  lastExecution :: "timestamp option"

text \<open>The object that \<^verbatim>\<open>getUserPerformance\<close> returns.\<close>

record user_performance =
  up_totalAgents :: nat
  up_activeAgents :: nat
  up_averagePerformance :: rat
  up_totalExecutions :: nat
  up_successRate :: rat

text \<open>What the orchestrator throws.\<close>

datatype exn =
    AgentNotFound agent_id
  | InstanceNotFound instance_id
  | DbError
  | ExecutionError string

text \<open>The statements sent to \<^verbatim>\<open>db.query\<close>.\<close>

datatype db_query =
    SelectActiveAgents
  | UpsertUserAgent user_id agent_id config
  | UpdateUserAgentStatus status user_id agent_id
  | SelectAutoRunAgents

text \<open>The events sent through \<^verbatim>\<open>this.emit\<close> and \<^verbatim>\<open>this.io\<close>. The first argument of
  \<open>IoStatusChanged\<close> is the room (\<open>None\<close> for a broadcast), the last the \<^verbatim>\<open>userId\<close> property
  of the payload (absent in the broadcast of \<^verbatim>\<open>createAgentInstance\<close>, whose payload
  lists it first).\<close>

datatype event =
    AgentCreated instance_id user_id agent_id
  | IoStatusChanged "user_id option" instance_id agent_id status user_id
  | AgentCompleted instance_id exec_result
  | IoAgentResult user_id instance_id agent_id exec_result
  | AgentQueued instance_id

text \<open>One settled call of \<^verbatim>\<open>execute\<close>: its outcome, \<^verbatim>\<open>Date.now() - startTime\<close>, and the two
  readings of \<^verbatim>\<open>new Date()\<close> that follow (in \<^verbatim>\<open>updateMetrics\<close> and in \<^verbatim>\<open>recordExecution\<close>).\<close>

datatype outcome = Returned exec_result | Threw string

record invocation =
  inv_outcome :: outcome
  inv_elapsed :: nat
  inv_metrics_clock :: timestamp
  inv_tracker_clock :: timestamp

record orchestrator =
  agents :: "agent_id \<rightharpoonup> agent_entry"
  agentInstances :: "(instance_id \<times> agent_instance) list"
  performanceTracker :: "instance_id \<rightharpoonup> tracker_metrics"
  isRunning :: bool
  db_log :: "db_query list"
  db_outcomes :: "bool list"
  emitted :: "event list"
  uuid_counter :: nat

subsection \<open>Maps with insertion order\<close>

text \<open>\<^verbatim>\<open>agentInstances\<close> is iterated by \<^verbatim>\<open>checkConflicts\<close>, so its order matters: it is an
  association list. \<^verbatim>\<open>Map.prototype.set\<close> overwrites the value of a key in place and appends
  a new key at the end.\<close>

fun Map_set :: "('k \<times> 'v) list \<Rightarrow> 'k \<Rightarrow> 'v \<Rightarrow> ('k \<times> 'v) list" where
  "Map_set [] k v = [(k, v)]"
| "Map_set ((k', v') # xs) k v =
     (if k' = k then (k, v) # xs else (k', v') # Map_set xs k v)"

text \<open>The object spread \<^verbatim>\<open>{...a, ...b}\<close>: the properties of \<^verbatim>\<open>a\<close>, then those of \<^verbatim>\<open>b\<close> set
  one after the other.\<close>

definition spread :: "('k \<times> 'v) list \<Rightarrow> ('k \<times> 'v) list \<Rightarrow> ('k \<times> 'v) list" where
  "spread a b = fold (\<lambda>(k, v) acc. Map_set acc k v) b a"

text \<open>An assignment to a property of the object stored under a key.\<close>

definition assign :: "('k \<times> 'v) list \<Rightarrow> 'k \<Rightarrow> ('v \<Rightarrow> 'v) \<Rightarrow> ('k \<times> 'v) list" where
  "assign xs k f = map (\<lambda>(k', v). if k' = k then (k', f v) else (k', v)) xs"

subsection \<open>Collaborators\<close>

definition db_query :: "orchestrator \<Rightarrow> db_query \<Rightarrow> bool \<times> orchestrator" where
  "db_query s q =
     (case db_outcomes s of
        [] \<Rightarrow> (True, s\<lparr>db_log := db_log s @ [q]\<rparr>)
      | ok # rest \<Rightarrow> (ok, s\<lparr>db_log := db_log s @ [q], db_outcomes := rest\<rparr>))"

definition emit :: "orchestrator \<Rightarrow> event \<Rightarrow> orchestrator" where
  "emit s e = s\<lparr>emitted := emitted s @ [e]\<rparr>"

definition uuidv4 :: "orchestrator \<Rightarrow> instance_id \<times> orchestrator" where
  "uuidv4 s = (uuid_counter s, s\<lparr>uuid_counter := Suc (uuid_counter s)\<rparr>)"

subsection \<open>Construction\<close>

text \<open>\<^verbatim>\<open>getAgentClass\<close> looks the type up in an object literal with four keys. The types are
  those that the table \<^verbatim>\<open>agents\<close> admits (its \<^verbatim>\<open>CHECK\<close> constraint lists the same four) and
  names that the literal does not answer. The names that every object literal inherits,
  such as \<^verbatim>\<open>constructor\<close>, are outside the model: for them the lookup of the code answers
  a value that is no agent class.\<close>

definition getAgentClass :: "string \<Rightarrow> agent_class option" where
  "getAgentClass t =
     map_of [(''meeting-agent'', MeetingAgent),
             (''mail-summarizer'', MailSummarizerAgent),
             (''report-generator'', ReportGeneratorAgent),
             (''task-router'', TaskRouterAgent)] t"

text \<open>\<^verbatim>\<open>setupCoordinationRules\<close> fills the map once; nothing writes to it afterwards.\<close>

definition coordinationRules :: "agent_id \<rightharpoonup> coordination_rule" where
  "coordinationRules =
     map_of [(''meeting-agent'',
                \<lparr>dependencies = [''mail-summarizer''], conflicts = [''task-router''],
                 priority = 1\<rparr>),
             (''mail-summarizer'',
                \<lparr>dependencies = [], conflicts = [], priority = 2\<rparr>),
             (''report-generator'',
                \<lparr>dependencies = [''meeting-agent'', ''mail-summarizer'', ''task-router''],
                 conflicts = [], priority = 3\<rparr>),
             (''task-router'',
                \<lparr>dependencies = [''mail-summarizer''], conflicts = [''meeting-agent''],
                 priority = 2\<rparr>)]"

text \<open>The constructor: empty maps; \<^verbatim>\<open>startScheduler\<close> sets \<^verbatim>\<open>isRunning\<close> before it returns.\<close>

definition new_orchestrator :: orchestrator where
  "new_orchestrator =
     \<lparr>agents = Map.empty, agentInstances = [], performanceTracker = Map.empty,
      isRunning = True, db_log = [], db_outcomes = [], emitted = [], uuid_counter = 0\<rparr>"

fun register_defs :: "(agent_id \<rightharpoonup> agent_entry) \<Rightarrow> agent_def list \<Rightarrow> (agent_id \<rightharpoonup> agent_entry)" where
  "register_defs m [] = m"
| "register_defs m (agentDef # rows) =
     (case getAgentClass (def_type agentDef) of
        None \<Rightarrow> register_defs m rows
      | Some agentClass \<Rightarrow>
          register_defs
            (m(def_id agentDef \<mapsto>
                 \<lparr>entry_definition = agentDef, entry_class = agentClass, entry_instances = []\<rparr>))
            rows)"

text \<open>\<^verbatim>\<open>initializeAgents\<close>; \<open>rows\<close> is what the database answers. A rejected query is
  logged and swallowed.\<close>

definition initializeAgents :: "orchestrator \<Rightarrow> agent_def list \<Rightarrow> orchestrator" where
  "initializeAgents s rows =
     (case db_query s SelectActiveAgents of
        (ok, s1) \<Rightarrow> if ok then s1\<lparr>agents := register_defs (agents s1) rows\<rparr> else s1)"

subsection \<open>\<^verbatim>\<open>BaseAgent\<close>\<close>

text \<open>The constructor of \<^verbatim>\<open>BaseAgent\<close>, which the four subclasses inherit.\<close>

definition new_agent ::
  "agent_class \<Rightarrow> instance_id \<Rightarrow> user_id \<Rightarrow> agent_id \<Rightarrow> config \<Rightarrow> agent_instance" where
  "new_agent c iid uid aid cfg =
     \<lparr>inst_id = iid, userId = uid, agentId = aid, config = cfg, cls = c, status = Idle,
      metrics = \<lparr>totalRuns = 0, successRate = 0, averageExecutionTime = 0, lastRun = None\<rparr>\<rparr>"

text \<open>\<^verbatim>\<open>updateMetrics(success, executionTime)\<close>; \<open>now\<close> is the reading of \<^verbatim>\<open>new Date()\<close>. The
  two averages are computed as the code writes them, \<open>(old * (n - 1) + sample) / n\<close>, in
  exact arithmetic; the code's result is this value only when no operation rounds.\<close>

definition updateMetrics :: "bool \<Rightarrow> nat \<Rightarrow> timestamp \<Rightarrow> metrics \<Rightarrow> metrics" where
  "updateMetrics success executionTime now m =
     (let n = Suc (totalRuns m) in
      m\<lparr>totalRuns := n,
        successRate :=
          (successRate m * of_nat (n - 1) + (if success then 1 else 0)) / of_nat n,
        averageExecutionTime :=
          (averageExecutionTime m * of_nat (n - 1) + of_nat executionTime) / of_nat n,
        lastRun := Some now\<rparr>)"

text \<open>Neither \<^verbatim>\<open>BaseAgent\<close> nor any of its subclasses defines a method \<^verbatim>\<open>pause\<close>: the property
  \<^verbatim>\<open>instance.pause\<close> is \<^verbatim>\<open>undefined\<close> for every object the orchestrator can build.\<close>

fun pause_method :: "agent_class \<Rightarrow> (agent_instance \<Rightarrow> agent_instance) option" where
  "pause_method MeetingAgent = None"
| "pause_method MailSummarizerAgent = None"
| "pause_method ReportGeneratorAgent = None"
| "pause_method TaskRouterAgent = None"

text \<open>\<^verbatim>\<open>BaseAgent.run\<close> is suspended at \<^verbatim>\<open>await this.execute(params)\<close>. \<open>run_begin\<close> is the
  part before the suspension, \<open>run_settle\<close> the part after it: the \<^verbatim>\<open>try\<close> or the \<^verbatim>\<open>catch\<close>
  branch, then \<^verbatim>\<open>finally\<close>.\<close>

definition run_begin :: "orchestrator \<Rightarrow> instance_id \<Rightarrow> orchestrator" where
  "run_begin s iid =
     s\<lparr>agentInstances := assign (agentInstances s) iid (\<lambda>i. i\<lparr>status := Running\<rparr>)\<rparr>"

definition run_settle ::
  "orchestrator \<Rightarrow> instance_id \<Rightarrow> invocation \<Rightarrow> (exn + exec_result) \<times> orchestrator" where
  "run_settle s iid call =
     (case inv_outcome call of
        Returned result \<Rightarrow>
          (Inr result,
           s\<lparr>agentInstances := assign (agentInstances s) iid
                (\<lambda>i. i\<lparr>metrics := updateMetrics True (inv_elapsed call) (inv_metrics_clock call)
                                      (metrics i),
                        status := Idle\<rparr>)\<rparr>)
      | Threw e \<Rightarrow>
          (Inl (ExecutionError e),
           s\<lparr>agentInstances := assign (agentInstances s) iid
                (\<lambda>i. i\<lparr>metrics := updateMetrics False (inv_elapsed call) (inv_metrics_clock call)
                                      (metrics i),
                        status := Idle\<rparr>)\<rparr>))"

subsection \<open>\<^verbatim>\<open>ConflictResolver\<close> and \<^verbatim>\<open>PerformanceTracker\<close>\<close>

definition resolve :: "conflict \<Rightarrow> resolution" where
  "resolve c =
     (if conflict_type c = ''agent-conflict''
      then \<lparr>action = ''pause'', target = Some (inst_id (instance2 c))\<rparr>
      else \<lparr>action = ''queue'', target = None\<rparr>)"

text \<open>\<^verbatim>\<open>result && !result.error\<close>: the result is an object, and its property \<^verbatim>\<open>error\<close> is
  falsy when it is absent or the empty string. \<^verbatim>\<open>result.executionTime || 0\<close> is \<open>0\<close> when the
  property is absent.\<close>

definition recordExecution ::
  "(instance_id \<rightharpoonup> tracker_metrics) \<Rightarrow> instance_id \<Rightarrow> exec_result \<Rightarrow> timestamp
     \<Rightarrow> (instance_id \<rightharpoonup> tracker_metrics)" where
  "recordExecution tracker iid result now =
     (let m = (case tracker iid of
                 None \<Rightarrow> \<lparr>totalExecutions = 0, successfulExecutions = 0,
                           totalExecutionTime = 0, lastExecution = None\<rparr>
               | Some m \<Rightarrow> m)
      in tracker(iid \<mapsto>
           m\<lparr>totalExecutions := totalExecutions m + 1,
             successfulExecutions :=
               (if result_error result = None \<or> result_error result = Some []
                then successfulExecutions m + 1 else successfulExecutions m),
             totalExecutionTime :=
               totalExecutionTime m +
               (case result_executionTime result of None \<Rightarrow> 0 | Some t \<Rightarrow> t),
             lastExecution := Some now\<rparr>))"

definition getUserPerformance ::
  "(instance_id \<rightharpoonup> tracker_metrics) \<Rightarrow> user_id \<Rightarrow> user_performance" where
  "getUserPerformance tracker uid =
     \<lparr>up_totalAgents = 4, up_activeAgents = 3, up_averagePerformance = 92 / 100,
      up_totalExecutions = 156, up_successRate = 94 / 100\<rparr>"

subsection \<open>\<^verbatim>\<open>AgentOrchestrator\<close>\<close>

text \<open>\<^verbatim>\<open>createAgentInstance(userId, agentId, config)\<close>. The instance is stored in both maps
  before the upsert is sent; a rejected upsert is rethrown and leaves the instance stored.\<close>

definition createAgentInstance ::
  "orchestrator \<Rightarrow> user_id \<Rightarrow> agent_id \<Rightarrow> config \<Rightarrow> (exn + instance_id) \<times> orchestrator" where
  "createAgentInstance s uid aid cfg =
     (case agents s aid of
        None \<Rightarrow> (Inl (AgentNotFound aid), s)
      | Some agentDef \<Rightarrow>
          (case uuidv4 s of
             (instanceId, s1) \<Rightarrow>
               (let inst = new_agent (entry_class agentDef) instanceId uid aid
                             (spread (def_configuration (entry_definition agentDef)) cfg);
                    s2 = s1\<lparr>agents := (agents s1)(aid \<mapsto>
                                agentDef\<lparr>entry_instances :=
                                  (if instanceId \<in> set (entry_instances agentDef)
                                   then entry_instances agentDef
                                   else entry_instances agentDef @ [instanceId])\<rparr>),
                            agentInstances := Map_set (agentInstances s1) instanceId inst\<rparr>
                in (case db_query s2 (UpsertUserAgent uid aid cfg) of
                      (ok, s3) \<Rightarrow>
                        if ok
                        then (Inr instanceId,
                              emit (emit s3 (AgentCreated instanceId uid aid))
                                (IoStatusChanged None instanceId aid Idle uid))
                        else (Inl DbError, s3)))))"

text \<open>\<^verbatim>\<open>updateAgentStatus(instanceId, status)\<close> never throws: a rejected update is logged and
  swallowed, after the status of the object has been assigned.\<close>

definition updateAgentStatus :: "orchestrator \<Rightarrow> instance_id \<Rightarrow> status \<Rightarrow> orchestrator" where
  "updateAgentStatus s iid st =
     (case map_of (agentInstances s) iid of
        None \<Rightarrow> s
      | Some inst \<Rightarrow>
          (case db_query (s\<lparr>agentInstances := assign (agentInstances s) iid (\<lambda>i. i\<lparr>status := st\<rparr>)\<rparr>)
                  (UpdateUserAgentStatus st (userId inst) (agentId inst)) of
             (ok, s1) \<Rightarrow>
               if ok
               then emit s1 (IoStatusChanged (Some (userId inst)) iid (agentId inst) st (userId inst))
               else s1))"

definition pauseAgent :: "orchestrator \<Rightarrow> instance_id \<Rightarrow> orchestrator" where
  "pauseAgent s iid =
     (case map_of (agentInstances s) iid of
        None \<Rightarrow> s
      | Some inst \<Rightarrow>
          (case pause_method (cls inst) of
             None \<Rightarrow> s
           | Some pause \<Rightarrow>
               updateAgentStatus (s\<lparr>agentInstances := assign (agentInstances s) iid pause\<rparr>)
                 iid Paused))"

definition queueAgent :: "orchestrator \<Rightarrow> instance_id \<Rightarrow> orchestrator" where
  "queueAgent s iid = emit s (AgentQueued iid)"

text \<open>The loop of \<^verbatim>\<open>checkConflicts\<close> over the entries of \<^verbatim>\<open>agentInstances\<close>.\<close>

fun checkConflicts_loop ::
  "coordination_rule \<Rightarrow> agent_instance \<Rightarrow> (instance_id \<times> agent_instance) list \<Rightarrow> conflict list" where
  "checkConflicts_loop rules inst [] = []"
| "checkConflicts_loop rules inst ((otherInstanceId, otherInstance) # rest) =
     (if userId otherInstance = userId inst \<and> status otherInstance = Running \<and>
         agentId otherInstance \<in> set (conflicts rules)
      then \<lparr>conflict_type = ''agent-conflict'', instance1 = inst, instance2 = otherInstance,
            severity = ''medium''\<rparr> # checkConflicts_loop rules inst rest
      else checkConflicts_loop rules inst rest)"

definition checkConflicts :: "orchestrator \<Rightarrow> agent_instance \<Rightarrow> conflict list" where
  "checkConflicts s inst =
     (case coordinationRules (agentId inst) of
        None \<Rightarrow> []
      | Some rules \<Rightarrow> checkConflicts_loop rules inst (agentInstances s))"

fun resolveConflicts :: "orchestrator \<Rightarrow> conflict list \<Rightarrow> agent_instance \<Rightarrow> orchestrator" where
  "resolveConflicts s [] inst = s"
| "resolveConflicts s (c # cs) inst =
     resolveConflicts
       (if action (resolve c) = ''pause'' then pauseAgent s (inst_id (instance2 c))
        else if action (resolve c) = ''queue'' then queueAgent s (inst_id inst)
        else s)
       cs inst"

text \<open>\<^verbatim>\<open>runAgent(instanceId, params)\<close> is suspended, for as long as the unit works, at
  \<^verbatim>\<open>await instance.run(params)\<close>, inside \<^verbatim>\<open>await this.execute(params)\<close>. \<open>runAgent_begin\<close> is
  what one call does before that suspension and \<open>runAgent_end\<close> what it does once \<^verbatim>\<open>execute\<close>
  has settled (it still holds the object \<^verbatim>\<open>instance\<close> that it looked up); \<open>runAgent\<close> is a call
  that nothing interleaves with. \<^verbatim>\<open>params\<close> reaches
  \<^verbatim>\<open>execute\<close> only. The handler of \<^verbatim>\<open>catch\<close> sets the status \<^verbatim>\<open>'error'\<close> and rethrows.\<close>

definition runAgent_begin ::
  "orchestrator \<Rightarrow> instance_id \<Rightarrow> (exn + agent_instance) \<times> orchestrator" where
  "runAgent_begin s iid =
     (case map_of (agentInstances s) iid of
        None \<Rightarrow> (Inl (InstanceNotFound iid), updateAgentStatus s iid Error)
      | Some inst \<Rightarrow>
          (let cs = checkConflicts s inst;
               s1 = (if length cs > 0 then resolveConflicts s cs inst else s);
               s2 = updateAgentStatus s1 iid Running
           in (Inr inst, run_begin s2 iid)))"

definition runAgent_end ::
  "orchestrator \<Rightarrow> instance_id \<Rightarrow> agent_instance \<Rightarrow> invocation
     \<Rightarrow> (exn + exec_result) \<times> orchestrator" where
  "runAgent_end s iid inst call =
     (case run_settle s iid call of
        (Inl e, s1) \<Rightarrow> (Inl e, updateAgentStatus s1 iid Error)
      | (Inr result, s1) \<Rightarrow>
          (let s2 = s1\<lparr>performanceTracker :=
                        recordExecution (performanceTracker s1) iid result
                          (inv_tracker_clock call)\<rparr>;
               s3 = updateAgentStatus s2 iid Idle
           in (Inr result,
               emit (emit s3 (AgentCompleted iid result))
                 (IoAgentResult (userId inst) iid (agentId inst) result))))"

definition runAgent ::
  "orchestrator \<Rightarrow> instance_id \<Rightarrow> invocation \<Rightarrow> (exn + exec_result) \<times> orchestrator" where
  "runAgent s iid call =
     (case runAgent_begin s iid of
        (Inl e, s1) \<Rightarrow> (Inl e, s1)
      | (Inr inst, s1) \<Rightarrow> runAgent_end s1 iid inst call)"

text \<open>Several calls of \<^verbatim>\<open>runAgent\<close> on the same instance id that overlap: every call is made
  while the earlier ones are suspended in \<^verbatim>\<open>execute\<close>, and the calls settle in the order in
  which they were made. \<open>runAgent_begin_all\<close> is the first part of the calls,
  \<open>runAgent_end_all\<close> the second (a call that has thrown in its first part is over), and
  the value of \<open>concurrent_runs\<close> is what the callers get, in the order of the calls, and
  the state after all of them.\<close>

fun runAgent_begin_all ::
  "orchestrator \<Rightarrow> instance_id \<Rightarrow> nat \<Rightarrow> (exn + agent_instance) list \<times> orchestrator" where
  "runAgent_begin_all s iid 0 = ([], s)"
| "runAgent_begin_all s iid (Suc n) =
     (case runAgent_begin s iid of
        (r, s1) \<Rightarrow> (case runAgent_begin_all s1 iid n of (rs, s2) \<Rightarrow> (r # rs, s2)))"

fun runAgent_end_all ::
  "orchestrator \<Rightarrow> instance_id \<Rightarrow> ((exn + agent_instance) \<times> invocation) list
     \<Rightarrow> (exn + exec_result) list \<times> orchestrator" where
  "runAgent_end_all s iid [] = ([], s)"
| "runAgent_end_all s iid ((Inl e, call) # rest) =
     (case runAgent_end_all s iid rest of (rs, s1) \<Rightarrow> (Inl e # rs, s1))"
| "runAgent_end_all s iid ((Inr inst, call) # rest) =
     (case runAgent_end s iid inst call of
        (r, s1) \<Rightarrow> (case runAgent_end_all s1 iid rest of (rs, s2) \<Rightarrow> (r # rs, s2)))"

definition concurrent_runs ::
  "orchestrator \<Rightarrow> instance_id \<Rightarrow> invocation list \<Rightarrow> (exn + exec_result) list \<times> orchestrator" where
  "concurrent_runs s iid calls =
     (case runAgent_begin_all s iid (length calls) of
        (begun, s1) \<Rightarrow> runAgent_end_all s1 iid (zip begun calls))"

text \<open>A row of the scheduler's query.\<close>

record auto_run_row =
  row_user_id :: user_id
  row_agent_id :: agent_id
  row_settings :: config

text \<open>The \<^verbatim>\<open>for\<close> loop of the scheduler's tick. Each row comes with what \<^verbatim>\<open>execute\<close> will do
  for it. The loop stands inside the \<^verbatim>\<open>try\<close> block of the tick: the value is the error that
  left the loop, if any.\<close>

fun run_rows ::
  "orchestrator \<Rightarrow> (auto_run_row \<times> invocation) list \<Rightarrow> exn option \<times> orchestrator" where
  "run_rows s [] = (None, s)"
| "run_rows s ((agent, call) # rest) =
     (case createAgentInstance s (row_user_id agent) (row_agent_id agent) (row_settings agent) of
        (Inl e, s1) \<Rightarrow> (Some e, s1)
      | (Inr instanceId, s1) \<Rightarrow>
          (case runAgent s1 instanceId call of
             (Inl e, s2) \<Rightarrow> (Some e, s2)
           | (Inr result, s2) \<Rightarrow> run_rows s2 rest))"

text \<open>One tick of the scheduler; \<open>rows\<close> is what the database answers to the query for the
  idle instances whose interval has elapsed. Every error is logged and swallowed.\<close>

definition scheduler_tick ::
  "orchestrator \<Rightarrow> (auto_run_row \<times> invocation) list \<Rightarrow> orchestrator" where
  "scheduler_tick s rows =
     (if \<not> isRunning s then s
      else (case db_query s SelectAutoRunAgents of
              (ok, s1) \<Rightarrow> if ok then snd (run_rows s1 rows) else s1))"

definition getAgentPerformance :: "orchestrator \<Rightarrow> user_id \<Rightarrow> user_performance" where
  "getAgentPerformance s uid = getUserPerformance (performanceTracker s) uid"

subsection \<open>Notions of the specification\<close>

text \<open>The candidate's conflict set: the \<^verbatim>\<open>conflicts\<close> of the rule of its unit type, empty for
  a unit type with no rule.\<close>

definition conflict_set :: "agent_id \<Rightarrow> agent_id set" where
  "conflict_set t = (case coordinationRules t of None \<Rightarrow> {} | Some r \<Rightarrow> set (conflicts r))"

text \<open>The conflict detection in the specification's words: one record of severity
  \<^verbatim>\<open>medium\<close> for every other instance of the same user whose status is \<^verbatim>\<open>running\<close> and whose
  unit type is in the candidate's conflict set. A record is given by the candidate, the
  other instance and the severity.\<close>

definition findConflicts_spec ::
  "orchestrator \<Rightarrow> agent_instance \<Rightarrow> (agent_instance \<times> agent_instance \<times> string) list" where
  "findConflicts_spec s candidate =
     map (\<lambda>other. (candidate, other, ''medium''))
       (filter (\<lambda>other. other \<noteq> candidate \<and> userId other = userId candidate \<and>
                         status other = Running \<and>
                         agentId other \<in> conflict_set (agentId candidate))
          (map snd (agentInstances s)))"

definition conflict_view :: "conflict \<Rightarrow> agent_instance \<times> agent_instance \<times> string" where
  "conflict_view c = (instance1 c, instance2 c, severity c)"

text \<open>What the caller of a run on an instance of the registry gets: the result of
  \<^verbatim>\<open>execute\<close>, or the error it threw.\<close>

definition settled :: "invocation \<Rightarrow> exn + exec_result" where
  "settled call =
     (case inv_outcome call of Returned r \<Rightarrow> Inr r | Threw e \<Rightarrow> Inl (ExecutionError e))"

text \<open>Whether \<^verbatim>\<open>execute\<close> returned.\<close>

definition returned :: "invocation \<Rightarrow> bool" where
  "returned call = (case inv_outcome call of Returned r \<Rightarrow> True | Threw e \<Rightarrow> False)"

text \<open>The ids of the instances that the registry holds for a user and a unit type, and the
  invariant of the specification: no two instances of the registry have the same user and
  the same unit type.\<close>

definition instances_of :: "orchestrator \<Rightarrow> user_id \<Rightarrow> agent_id \<Rightarrow> instance_id list" where
  "instances_of s uid aid =
     map fst (filter (\<lambda>(k, i). userId i = uid \<and> agentId i = aid) (agentInstances s))"

definition one_instance_per_pair :: "orchestrator \<Rightarrow> bool" where
  "one_instance_per_pair s = distinct (map (\<lambda>(k, i). (userId i, agentId i)) (agentInstances s))"

text \<open>Every id of the registry has been handed out by \<^verbatim>\<open>uuidv4\<close> before.\<close>

definition ids_below_counter :: "orchestrator \<Rightarrow> bool" where
  "ids_below_counter s = (\<forall>k \<in> fst ` set (agentInstances s). k < uuid_counter s)"

text \<open>Whether the next \<^verbatim>\<open>db.query\<close> resolves.\<close>

definition db_resolves :: "orchestrator \<Rightarrow> bool" where
  "db_resolves s = (case db_outcomes s of [] \<Rightarrow> True | ok # rest \<Rightarrow> ok)"

text \<open>A history of recorded executions, applied to the tracker.\<close>

fun record_history ::
  "(instance_id \<rightharpoonup> tracker_metrics) \<Rightarrow> (instance_id \<times> exec_result \<times> timestamp) list
     \<Rightarrow> (instance_id \<rightharpoonup> tracker_metrics)" where
  "record_history tracker [] = tracker"
| "record_history tracker ((iid, result, now) # history) =
     record_history (recordExecution tracker iid result now) history"

subsection \<open>Example states\<close>

text \<open>An orchestrator whose catalogue has three unit types, named by their type, and a user
  \<^verbatim>\<open>u1\<close>.\<close>

definition demo_defs :: "agent_def list" where
  "demo_defs =
     [\<lparr>def_id = ''meeting-agent'', def_type = ''meeting-agent'', def_configuration = []\<rparr>,
      \<lparr>def_id = ''task-router'', def_type = ''task-router'', def_configuration = []\<rparr>,
      \<lparr>def_id = ''mail-summarizer'', def_type = ''mail-summarizer'',
       def_configuration = []\<rparr>]"

definition demo_start :: orchestrator where
  "demo_start = initializeAgents new_orchestrator demo_defs"

text \<open>After \<^verbatim>\<open>createAgentInstance('u1', 'meeting-agent', {})\<close>: instance \<open>0\<close>.\<close>

definition demo_meeting :: orchestrator where
  "demo_meeting = snd (createAgentInstance demo_start ''u1'' ''meeting-agent'' [])"

text \<open>After \<^verbatim>\<open>createAgentInstance('u1', 'task-router', {})\<close> as well: instance \<open>1\<close>.\<close>

definition demo_both :: orchestrator where
  "demo_both = snd (createAgentInstance demo_meeting ''u1'' ''task-router'' [])"

text \<open>While a run of the meeting agent is suspended in \<^verbatim>\<open>execute\<close>.\<close>

definition demo_meeting_running :: orchestrator where
  "demo_meeting_running = snd (runAgent_begin demo_both 0)"

definition demo_result :: exec_result where
  "demo_result = \<lparr>result_error = None, result_executionTime = None, result_payload = ''done''\<rparr>"

definition ok_call :: invocation where
  "ok_call = \<lparr>inv_outcome = Returned demo_result, inv_elapsed = 5, inv_metrics_clock = 100,
              inv_tracker_clock = 101\<rparr>"

definition failing_call :: invocation where
  "failing_call = \<lparr>inv_outcome = Threw ''boom'', inv_elapsed = 7, inv_metrics_clock = 200,
                   inv_tracker_clock = 201\<rparr>"

definition meeting_row :: auto_run_row where
  "meeting_row = \<lparr>row_user_id = ''u1'', row_agent_id = ''meeting-agent'', row_settings = []\<rparr>"

definition mail_row :: auto_run_row where
  "mail_row = \<lparr>row_user_id = ''u1'', row_agent_id = ''mail-summarizer'', row_settings = []\<rparr>"

text \<open>A short summary of the registry: id, unit type, status and number of runs of every
  instance, in the registry's order.\<close>

definition registry_summary :: "orchestrator \<Rightarrow> (instance_id \<times> agent_id \<times> status \<times> nat) list" where
  "registry_summary s = map (\<lambda>(k, i). (k, agentId i, status i, totalRuns (metrics i))) (agentInstances s)"

section \<open>Properties\<close>

subsection \<open>What the operations leave alone\<close>

lemma map_of_assign:
  "map_of (assign xs k f) k' = (if k' = k then map_option f (map_of xs k) else map_of xs k')"
  by (induction xs) (auto simp: assign_def)

lemma assign_absent: "map_of xs k = None \<Longrightarrow> assign xs k f = xs"
  by (induction xs) (auto simp: assign_def split: if_splits)

lemma map_fst_assign: "map fst (assign xs k f) = map fst xs"
  by (induction xs) (auto simp: assign_def)

lemma db_query_frame:
  "agents (snd (db_query s q)) = agents s"
  "agentInstances (snd (db_query s q)) = agentInstances s"
  "performanceTracker (snd (db_query s q)) = performanceTracker s"
  "isRunning (snd (db_query s q)) = isRunning s"
  "uuid_counter (snd (db_query s q)) = uuid_counter s"
  "emitted (snd (db_query s q)) = emitted s"
  by (simp_all add: db_query_def split: list.splits)

lemma emit_frame:
  "agents (emit s e) = agents s"
  "agentInstances (emit s e) = agentInstances s"
  "performanceTracker (emit s e) = performanceTracker s"
  "isRunning (emit s e) = isRunning s"
  "uuid_counter (emit s e) = uuid_counter s"
  "db_log (emit s e) = db_log s"
  "db_outcomes (emit s e) = db_outcomes s"
  by (simp_all add: emit_def)

lemma updateAgentStatus_instances:
  "agentInstances (updateAgentStatus s iid st) =
     assign (agentInstances s) iid (\<lambda>i. i\<lparr>status := st\<rparr>)"
proof (cases "map_of (agentInstances s) iid")
  case None
  then show ?thesis by (simp add: updateAgentStatus_def assign_absent)
next
  case (Some inst)
  define s0 where "s0 = s\<lparr>agentInstances := assign (agentInstances s) iid (\<lambda>i. i\<lparr>status := st\<rparr>)\<rparr>"
  define q where "q = UpdateUserAgentStatus st (userId inst) (agentId inst)"
  obtain ok s1 where r: "db_query s0 q = (ok, s1)"
    by (cases "db_query s0 q")
  from db_query_frame(2) [of s0 q] r
  have "agentInstances s1 = assign (agentInstances s) iid (\<lambda>i. i\<lparr>status := st\<rparr>)"
    by (simp add: s0_def)
  with Some r show ?thesis
    by (simp add: updateAgentStatus_def emit_frame s0_def q_def)
qed

lemma updateAgentStatus_frame:
  "agents (updateAgentStatus s iid st) = agents s"
  "performanceTracker (updateAgentStatus s iid st) = performanceTracker s"
  "isRunning (updateAgentStatus s iid st) = isRunning s"
  "uuid_counter (updateAgentStatus s iid st) = uuid_counter s"
  by (auto simp: updateAgentStatus_def db_query_def emit_def split: option.splits list.splits)

text \<open>No object has a method \<^verbatim>\<open>pause\<close>, so the guard of \<^verbatim>\<open>pauseAgent\<close> never holds.\<close>

lemma pauseAgent_noop: "pauseAgent s iid = s"
proof -
  have "pause_method c = None" for c by (cases c) simp_all
  then show ?thesis by (simp add: pauseAgent_def split: option.splits)
qed

lemma resolveConflicts_frame:
  "agents (resolveConflicts s cs inst) = agents s"
  "agentInstances (resolveConflicts s cs inst) = agentInstances s"
  "performanceTracker (resolveConflicts s cs inst) = performanceTracker s"
  "isRunning (resolveConflicts s cs inst) = isRunning s"
  "uuid_counter (resolveConflicts s cs inst) = uuid_counter s"
  by (induction s cs inst rule: resolveConflicts.induct)
     (simp_all add: pauseAgent_noop queueAgent_def emit_frame)

subsection \<open>The two parts of a run\<close>

lemma runAgent_begin_found:
  assumes "map_of (agentInstances s) iid = Some inst"
  shows "fst (runAgent_begin s iid) = Inr inst"
    and "agentInstances (snd (runAgent_begin s iid)) =
           assign (assign (agentInstances s) iid (\<lambda>i. i\<lparr>status := Running\<rparr>)) iid
             (\<lambda>i. i\<lparr>status := Running\<rparr>)"
    and "performanceTracker (snd (runAgent_begin s iid)) = performanceTracker s"
  using assms
  by (simp_all add: runAgent_begin_def Let_def run_begin_def updateAgentStatus_instances
        updateAgentStatus_frame resolveConflicts_frame)

lemma runAgent_begin_lookup:
  assumes "map_of (agentInstances s) iid = Some inst"
  shows "map_of (agentInstances (snd (runAgent_begin s iid))) k =
           (if k = iid then Some (inst\<lparr>status := Running\<rparr>) else map_of (agentInstances s) k)"
  using assms by (simp add: runAgent_begin_found(2) map_of_assign)

lemma runAgent_begin_missing:
  "map_of (agentInstances s) iid = None \<Longrightarrow>
     runAgent_begin s iid = (Inl (InstanceNotFound iid), s)"
  by (simp add: runAgent_begin_def updateAgentStatus_def)

lemma runAgent_end_returned:
  assumes "inv_outcome call = Returned r"
  shows "fst (runAgent_end s iid inst call) = Inr r"
    and "agentInstances (snd (runAgent_end s iid inst call)) =
           assign (assign (agentInstances s) iid
             (\<lambda>i. i\<lparr>metrics := updateMetrics True (inv_elapsed call) (inv_metrics_clock call)
                                   (metrics i),
                     status := Idle\<rparr>)) iid (\<lambda>i. i\<lparr>status := Idle\<rparr>)"
    and "performanceTracker (snd (runAgent_end s iid inst call)) =
           recordExecution (performanceTracker s) iid r (inv_tracker_clock call)"
  using assms
  by (simp_all add: runAgent_end_def run_settle_def Let_def updateAgentStatus_instances
        updateAgentStatus_frame emit_frame)

lemma runAgent_end_threw:
  assumes "inv_outcome call = Threw e"
  shows "fst (runAgent_end s iid inst call) = Inl (ExecutionError e)"
    and "agentInstances (snd (runAgent_end s iid inst call)) =
           assign (assign (agentInstances s) iid
             (\<lambda>i. i\<lparr>metrics := updateMetrics False (inv_elapsed call) (inv_metrics_clock call)
                                   (metrics i),
                     status := Idle\<rparr>)) iid (\<lambda>i. i\<lparr>status := Error\<rparr>)"
    and "performanceTracker (snd (runAgent_end s iid inst call)) = performanceTracker s"
  using assms
  by (simp_all add: runAgent_end_def run_settle_def Let_def updateAgentStatus_instances
        updateAgentStatus_frame emit_frame)

lemma runAgent_end_settled: "fst (runAgent_end s iid inst call) = settled call"
  by (cases "inv_outcome call") (simp_all add: settled_def runAgent_end_returned(1) runAgent_end_threw(1))

lemma runAgent_found:
  "map_of (agentInstances s) iid = Some inst \<Longrightarrow>
     runAgent s iid call = runAgent_end (snd (runAgent_begin s iid)) iid inst call"
  using runAgent_begin_found(1) [of s iid inst]
  by (cases "runAgent_begin s iid") (simp add: runAgent_def)

lemma runAgent_missing:
  "map_of (agentInstances s) iid = None \<Longrightarrow> runAgent s iid call = (Inl (InstanceNotFound iid), s)"
  by (simp add: runAgent_def runAgent_begin_def updateAgentStatus_def)

lemma runAgent_end_totalRuns:
  assumes "map_of (agentInstances s) iid = Some cur"
  shows "\<exists>cur'. map_of (agentInstances (snd (runAgent_end s iid inst call))) iid = Some cur' \<and>
           totalRuns (metrics cur') = Suc (totalRuns (metrics cur))"
proof (cases "inv_outcome call")
  case (Returned r)
  from runAgent_end_returned(2) [OF this] assms show ?thesis
    by (simp add: map_of_assign updateMetrics_def Let_def)
next
  case (Threw e)
  from runAgent_end_threw(2) [OF this] assms show ?thesis
    by (simp add: map_of_assign updateMetrics_def Let_def)
qed

text \<open>A run changes no instance but its own, and no key of the registry.\<close>

lemma runAgent_end_lookup_other:
  "k \<noteq> iid \<Longrightarrow>
     map_of (agentInstances (snd (runAgent_end s iid inst call))) k = map_of (agentInstances s) k"
  by (cases "inv_outcome call")
     (simp_all add: runAgent_end_returned(2) runAgent_end_threw(2) map_of_assign)

lemma runAgent_lookup_other:
  assumes "k \<noteq> iid"
  shows "map_of (agentInstances (snd (runAgent s iid call))) k = map_of (agentInstances s) k"
proof (cases "map_of (agentInstances s) iid")
  case None
  then show ?thesis by (simp add: runAgent_missing)
next
  case (Some inst)
  then show ?thesis
    using assms by (simp add: runAgent_found runAgent_end_lookup_other runAgent_begin_lookup)
qed

lemma runAgent_end_keys:
  "map fst (agentInstances (snd (runAgent_end s iid inst call))) = map fst (agentInstances s)"
  by (cases "inv_outcome call")
     (simp_all add: runAgent_end_returned(2) runAgent_end_threw(2) map_fst_assign)

lemma runAgent_end_counter:
  "uuid_counter (snd (runAgent_end s iid inst call)) = uuid_counter s"
  by (cases "inv_outcome call")
     (simp_all add: runAgent_end_def run_settle_def Let_def updateAgentStatus_frame emit_frame)

lemma runAgent_begin_keys:
  "map fst (agentInstances (snd (runAgent_begin s iid))) = map fst (agentInstances s)"
proof (cases "map_of (agentInstances s) iid")
  case None
  then show ?thesis by (simp add: runAgent_begin_missing)
next
  case (Some inst)
  then show ?thesis by (simp add: runAgent_begin_found(2) map_fst_assign)
qed

lemma runAgent_begin_counter:
  "uuid_counter (snd (runAgent_begin s iid)) = uuid_counter s"
proof (cases "map_of (agentInstances s) iid")
  case None
  then show ?thesis by (simp add: runAgent_begin_missing)
next
  case (Some inst)
  then show ?thesis
    by (simp add: runAgent_begin_def Let_def run_begin_def updateAgentStatus_frame
          resolveConflicts_frame)
qed

lemma runAgent_keys:
  "map fst (agentInstances (snd (runAgent s iid call))) = map fst (agentInstances s)"
  "uuid_counter (snd (runAgent s iid call)) = uuid_counter s"
proof -
  obtain r s1 where b: "runAgent_begin s iid = (r, s1)" by (cases "runAgent_begin s iid")
  have k: "map fst (agentInstances s1) = map fst (agentInstances s)"
    and c: "uuid_counter s1 = uuid_counter s"
    using runAgent_begin_keys [of s iid] runAgent_begin_counter [of s iid] b by simp_all
  show "map fst (agentInstances (snd (runAgent s iid call))) = map fst (agentInstances s)"
    using b k by (cases r) (simp_all add: runAgent_def runAgent_end_keys)
  show "uuid_counter (snd (runAgent s iid call)) = uuid_counter s"
    using b c by (cases r) (simp_all add: runAgent_def runAgent_end_counter)
qed

subsection \<open>Overlapping runs\<close>

lemma runAgent_begin_all_found:
  "map_of (agentInstances s) iid = Some inst \<Longrightarrow>
     \<exists>insts cur. fst (runAgent_begin_all s iid n) = map Inr insts \<and> length insts = n \<and>
       map_of (agentInstances (snd (runAgent_begin_all s iid n))) iid = Some cur \<and>
       metrics cur = metrics inst"
proof (induction n arbitrary: s inst)
  case 0
  then show ?case by simp
next
  case (Suc n)
  obtain r s1 where b: "runAgent_begin s iid = (r, s1)" by (cases "runAgent_begin s iid")
  have r: "r = Inr inst" using runAgent_begin_found(1) [OF Suc.prems] b by simp
  have l: "map_of (agentInstances s1) iid = Some (inst\<lparr>status := Running\<rparr>)"
    using runAgent_begin_lookup [OF Suc.prems, of iid] b by simp
  from Suc.IH [OF l] obtain insts cur where
    i: "fst (runAgent_begin_all s1 iid n) = map Inr insts" "length insts = n"
       "map_of (agentInstances (snd (runAgent_begin_all s1 iid n))) iid = Some cur"
       "metrics cur = metrics (inst\<lparr>status := Running\<rparr>)"
    by blast
  obtain rs s2 where a: "runAgent_begin_all s1 iid n = (rs, s2)"
    by (cases "runAgent_begin_all s1 iid n")
  have "fst (runAgent_begin_all s iid (Suc n)) = map Inr (inst # insts)"
    using b r a i(1) by simp
  moreover have "length (inst # insts) = Suc n" using i(2) by simp
  moreover have "map_of (agentInstances (snd (runAgent_begin_all s iid (Suc n)))) iid = Some cur"
    using b a i(3) by simp
  moreover have "metrics cur = metrics inst" using i(4) by simp
  ultimately show ?case by blast
qed

lemma runAgent_end_all_found:
  "length insts = length calls \<Longrightarrow> map_of (agentInstances s) iid = Some cur \<Longrightarrow>
     fst (runAgent_end_all s iid (zip (map Inr insts) calls)) = map settled calls \<and>
     (\<exists>cur'. map_of (agentInstances (snd (runAgent_end_all s iid (zip (map Inr insts) calls)))) iid
               = Some cur' \<and>
             totalRuns (metrics cur') = totalRuns (metrics cur) + length calls)"
proof (induction insts calls arbitrary: s cur rule: list_induct2)
  case Nil
  then show ?case by simp
next
  case (Cons inst insts call calls)
  obtain r s1 where e: "runAgent_end s iid inst call = (r, s1)"
    by (cases "runAgent_end s iid inst call")
  have r: "r = settled call" using runAgent_end_settled [of s iid inst call] e by simp
  from runAgent_end_totalRuns [OF Cons.prems, of inst call] e obtain cur1 where
    c: "map_of (agentInstances s1) iid = Some cur1"
       "totalRuns (metrics cur1) = Suc (totalRuns (metrics cur))"
    by auto
  obtain rs s2 where a: "runAgent_end_all s1 iid (zip (map Inr insts) calls) = (rs, s2)"
    by (cases "runAgent_end_all s1 iid (zip (map Inr insts) calls)")
  from Cons.IH [OF c(1)] a obtain cur' where
    i: "rs = map settled calls" "map_of (agentInstances s2) iid = Some cur'"
       "totalRuns (metrics cur') = totalRuns (metrics cur1) + length calls"
    by auto
  show ?case using e r a i c(2) by simp
qed

lemma concurrent_runs_found:
  assumes "map_of (agentInstances s) iid = Some inst"
  shows "fst (concurrent_runs s iid calls) = map settled calls"
    and "map_option (\<lambda>i. totalRuns (metrics i))
           (map_of (agentInstances (snd (concurrent_runs s iid calls))) iid) =
         Some (totalRuns (metrics inst) + length calls)"
proof -
  obtain begun s1 where b: "runAgent_begin_all s iid (length calls) = (begun, s1)"
    by (cases "runAgent_begin_all s iid (length calls)")
  from runAgent_begin_all_found [OF assms, of "length calls"] b obtain insts cur where
    i: "begun = map Inr insts" "length insts = length calls"
       "map_of (agentInstances s1) iid = Some cur" "metrics cur = metrics inst"
    by auto
  from runAgent_end_all_found [OF i(2) i(3)] obtain cur' where
    e: "fst (runAgent_end_all s1 iid (zip (map Inr insts) calls)) = map settled calls"
       "map_of (agentInstances (snd (runAgent_end_all s1 iid (zip (map Inr insts) calls)))) iid
          = Some cur'"
       "totalRuns (metrics cur') = totalRuns (metrics cur) + length calls"
    by blast
  show "fst (concurrent_runs s iid calls) = map settled calls"
    using b i(1) e(1) by (simp add: concurrent_runs_def)
  show "map_option (\<lambda>i. totalRuns (metrics i))
           (map_of (agentInstances (snd (concurrent_runs s iid calls))) iid) =
         Some (totalRuns (metrics inst) + length calls)"
    using b i(1) i(4) e(2) e(3) by (simp add: concurrent_runs_def)
qed

subsection \<open>Facts about the example states\<close>

lemma demo_meeting_instances:
  "agentInstances demo_meeting = [(0, new_agent MeetingAgent 0 ''u1'' ''meeting-agent'' [])]"
  by code_simp

lemma demo_meeting_running_instances:
  "agentInstances demo_meeting_running =
     [(0, (new_agent MeetingAgent 0 ''u1'' ''meeting-agent'' [])\<lparr>status := Running\<rparr>),
      (1, new_agent TaskRouterAgent 1 ''u1'' ''task-router'' [])]"
  by code_simp

lemma settled_examples:
  "settled ok_call = Inr demo_result" "settled failing_call = Inl (ExecutionError ''boom'')"
  by (simp_all add: settled_def ok_call_def failing_call_def)

text \<open>
  Counterexample to C1 as stated. The specification asks for a run that first checks the status and moves it from
  \<^verbatim>\<open>idle\<close> to \<^verbatim>\<open>running\<close> in one atomic step, so that of several concurrent calls on one
  instance a single one executes the unit. In the code two overlapping calls both execute
  it: the meeting agent of the example ends with two runs, and both callers get a result.
\<close>

theorem concurrent_runs_execute_twice:
  "fst (concurrent_runs demo_meeting 0 [ok_call, ok_call]) = [Inr demo_result, Inr demo_result] \<and>
   map_option (\<lambda>i. totalRuns (metrics i))
     (map_of (agentInstances (snd (concurrent_runs demo_meeting 0 [ok_call, ok_call]))) 0) = Some 2"
proof -
  have h: "map_of (agentInstances demo_meeting) 0 =
     Some (new_agent MeetingAgent 0 ''u1'' ''meeting-agent'' [])"
    by (simp add: demo_meeting_instances)
  show ?thesis
    using concurrent_runs_found [OF h, of "[ok_call, ok_call]"]
    by (simp add: settled_examples new_agent_def numeral_2_eq_2)
qed

text \<open>
  C1 (as the code has it): \<^verbatim>\<open>runAgent\<close> does not read the status of the instance. Whatever
  the status of an instance of the registry is, \<^verbatim>\<open>running\<close> included, the first part of a
  call returns normally and leaves the status \<^verbatim>\<open>running\<close>; and of \<open>N\<close> overlapping calls on
  the same instance id every one executes the unit: each caller gets what its own call of
  \<^verbatim>\<open>execute\<close> returned or threw, none is told that the instance is running already, and
  \<^verbatim>\<open>totalRuns\<close> grows by \<open>N\<close>.
\<close>

theorem run_has_no_status_check:
  assumes "map_of (agentInstances s) iid = Some inst"
  shows "fst (runAgent_begin s iid) = Inr inst \<and>
         map_of (agentInstances (snd (runAgent_begin s iid))) iid = Some (inst\<lparr>status := Running\<rparr>) \<and>
         fst (concurrent_runs s iid calls) = map settled calls \<and>
         map_option (\<lambda>i. totalRuns (metrics i))
           (map_of (agentInstances (snd (concurrent_runs s iid calls))) iid) =
         Some (totalRuns (metrics inst) + length calls)"
  using runAgent_begin_found(1) [OF assms] runAgent_begin_lookup [OF assms, of iid]
    concurrent_runs_found [OF assms, of calls]
  by simp

theorem run_has_no_status_check_witness:
  "map_of (agentInstances demo_meeting_running) 0 =
     Some ((new_agent MeetingAgent 0 ''u1'' ''meeting-agent'' [])\<lparr>status := Running\<rparr>) \<and>
   fst (runAgent_begin demo_meeting_running 0) =
     Inr ((new_agent MeetingAgent 0 ''u1'' ''meeting-agent'' [])\<lparr>status := Running\<rparr>) \<and>
   fst (concurrent_runs demo_meeting_running 0 [ok_call, failing_call, ok_call]) =
     [Inr demo_result, Inl (ExecutionError ''boom''), Inr demo_result] \<and>
   map_option (\<lambda>i. totalRuns (metrics i))
     (map_of (agentInstances (snd (concurrent_runs demo_meeting_running 0
        [ok_call, failing_call, ok_call]))) 0) = Some 3"
proof -
  have h: "map_of (agentInstances demo_meeting_running) 0 =
     Some ((new_agent MeetingAgent 0 ''u1'' ''meeting-agent'' [])\<lparr>status := Running\<rparr>)"
    by (simp add: demo_meeting_running_instances)
  show ?thesis
    using h run_has_no_status_check [OF h, of "[ok_call, failing_call, ok_call]"]
    by (simp add: settled_examples new_agent_def numeral_3_eq_3)
qed

subsection \<open>Creating instances\<close>

lemma Map_set_fresh: "k \<notin> fst ` set xs \<Longrightarrow> Map_set xs k v = xs @ [(k, v)]"
  by (induction xs) auto

lemma db_query_fst: "fst (db_query s q) = db_resolves s"
  by (simp add: db_query_def db_resolves_def split: list.splits)

lemma createAgentInstance_registered:
  assumes "agents s aid = Some d"
  shows "fst (createAgentInstance s uid aid cfg) =
           (if db_resolves s then Inr (uuid_counter s) else Inl DbError)"
    and "agentInstances (snd (createAgentInstance s uid aid cfg)) =
           Map_set (agentInstances s) (uuid_counter s)
             (new_agent (entry_class d) (uuid_counter s) uid aid
                (spread (def_configuration (entry_definition d)) cfg))"
    and "uuid_counter (snd (createAgentInstance s uid aid cfg)) = Suc (uuid_counter s)"
    and "performanceTracker (snd (createAgentInstance s uid aid cfg)) = performanceTracker s"
  using assms
  by (simp_all add: createAgentInstance_def uuidv4_def Let_def db_query_def db_resolves_def emit_def
        split: list.splits)

lemma createAgentInstance_unregistered:
  "agents s aid = None \<Longrightarrow> createAgentInstance s uid aid cfg = (Inl (AgentNotFound aid), s)"
  by (simp add: createAgentInstance_def)

lemma demo_meeting_agents:
  "agents demo_meeting ''meeting-agent'' =
     Some \<lparr>entry_definition = \<lparr>def_id = ''meeting-agent'', def_type = ''meeting-agent'',
                                def_configuration = []\<rparr>,
           entry_class = MeetingAgent, entry_instances = [0]\<rparr>"
  by code_simp

lemma demo_meeting_counter: "uuid_counter demo_meeting = 1"
  by code_simp

text \<open>The ids of the registry stay below the counter of \<^verbatim>\<open>uuidv4\<close> from the construction of
  the orchestrator on, through every creation, run and tick: the id that \<^verbatim>\<open>uuidv4\<close> returns
  next is never in the registry.\<close>

lemma set_Map_set: "fst ` set (Map_set xs k v) = insert k (fst ` set xs)"
  by (induction xs k v rule: Map_set.induct) (simp_all add: insert_commute)

lemma ids_below_counter_fresh:
  "ids_below_counter s \<Longrightarrow> uuid_counter s \<notin> fst ` set (agentInstances s)"
  by (auto simp: ids_below_counter_def)

lemma ids_below_counter_new: "ids_below_counter (initializeAgents new_orchestrator rows)"
  by (simp add: ids_below_counter_def initializeAgents_def new_orchestrator_def db_query_def)

lemma ids_below_counter_create:
  assumes "ids_below_counter s"
  shows "ids_below_counter (snd (createAgentInstance s uid aid cfg))"
proof (cases "agents s aid")
  case None
  with assms show ?thesis by (simp add: createAgentInstance_unregistered)
next
  case (Some d)
  with assms show ?thesis
    by (auto simp: ids_below_counter_def createAgentInstance_registered(2,3) set_Map_set
          less_Suc_eq)
qed

lemma ids_below_counter_run:
  "ids_below_counter s \<Longrightarrow> ids_below_counter (snd (runAgent s iid call))"
  using runAgent_keys [of s iid call]
  by (simp add: ids_below_counter_def flip: set_map)

lemma ids_below_counter_rows:
  "ids_below_counter s \<Longrightarrow> ids_below_counter (snd (run_rows s rows))"
proof (induction rows arbitrary: s)
  case Nil
  then show ?case by simp
next
  case (Cons p rows)
  obtain row call where p: "p = (row, call)" by (cases p)
  obtain r s1 where c: "createAgentInstance s (row_user_id row) (row_agent_id row) (row_settings row) = (r, s1)"
    by (cases "createAgentInstance s (row_user_id row) (row_agent_id row) (row_settings row)")
  have i1: "ids_below_counter s1"
    using ids_below_counter_create [OF Cons.prems, of "row_user_id row" "row_agent_id row" "row_settings row"] c
    by simp
  show ?case
  proof (cases r)
    case (Inl e)
    with p c i1 show ?thesis by simp
  next
    case (Inr instanceId)
    obtain q s2 where ra: "runAgent s1 instanceId call = (q, s2)"
      by (cases "runAgent s1 instanceId call")
    have i2: "ids_below_counter s2"
      using ids_below_counter_run [OF i1, of instanceId call] ra by simp
    show ?thesis
      using p c Inr ra i2 Cons.IH [OF i2] by (cases q) simp_all
  qed
qed

lemma ids_below_counter_tick:
  assumes "ids_below_counter s"
  shows "ids_below_counter (scheduler_tick s rows)"
proof -
  obtain ok s1 where q: "db_query s SelectAutoRunAgents = (ok, s1)"
    by (cases "db_query s SelectAutoRunAgents")
  have "ids_below_counter s1"
    using assms db_query_frame(2,5) [of s SelectAutoRunAgents] q
    by (simp add: ids_below_counter_def)
  then show ?thesis
    using assms q ids_below_counter_rows [of s1 rows] by (simp add: scheduler_tick_def)
qed

text \<open>
  Counterexample to C2 as stated. The invariant, at most one instance for a user and a unit type, does not
  hold in the registry: two ticks of the scheduler that both select the row of the meeting
  agent of user \<^verbatim>\<open>u1\<close> leave two instances for that pair.
\<close>

theorem scheduler_ticks_duplicate_pair:
  "\<not> one_instance_per_pair
       (scheduler_tick (scheduler_tick demo_start [(meeting_row, ok_call)]) [(meeting_row, ok_call)])"
  by code_simp

text \<open>
  C2 (as the code has it): \<^verbatim>\<open>createAgentInstance\<close> does not look for an instance of the
  pair. Every call for a registered unit type, with an id from \<^verbatim>\<open>uuidv4\<close> that the registry
  does not hold yet (which is so in every state reached from a new orchestrator, by the
  lemmas above), adds one instance to those of the pair (user id, unit type): the ids of
  the pair's instances are the old ones followed by the new id. So a pair that has an
  instance gets a second one: the registry is keyed by instance id and does not keep the
  pair unique.
\<close>

theorem createAgentInstance_adds_an_instance:
  assumes "agents s aid = Some d" and "uuid_counter s \<notin> fst ` set (agentInstances s)"
  shows "instances_of (snd (createAgentInstance s uid aid cfg)) uid aid =
           instances_of s uid aid @ [uuid_counter s]"
  using assms
  by (simp add: instances_of_def createAgentInstance_registered(2) Map_set_fresh new_agent_def)

theorem createAgentInstance_adds_an_instance_witness:
  "agents demo_meeting ''meeting-agent'' \<noteq> None \<and>
   uuid_counter demo_meeting \<notin> fst ` set (agentInstances demo_meeting) \<and>
   instances_of demo_meeting ''u1'' ''meeting-agent'' = [0] \<and>
   instances_of (snd (createAgentInstance demo_meeting ''u1'' ''meeting-agent'' [])) ''u1''
     ''meeting-agent'' = [0, 1]"
proof -
  note a = demo_meeting_agents and c = demo_meeting_counter
  have f: "uuid_counter demo_meeting \<notin> fst ` set (agentInstances demo_meeting)"
    by (simp add: c demo_meeting_instances)
  have i: "instances_of demo_meeting ''u1'' ''meeting-agent'' = [0]"
    by (simp add: instances_of_def demo_meeting_instances new_agent_def)
  show ?thesis
    using a f i createAgentInstance_adds_an_instance [OF a f, of "''u1''" "[]"]
    by (simp add: c)
qed

text \<open>
  Counterexample to C4 as stated. A second \<^verbatim>\<open>createAgentInstance\<close> for a pair that has an instance does not fail: it returns
  a new instance id, and the pair has two instances.
\<close>

theorem createAgentInstance_second_identity:
  "fst (createAgentInstance demo_meeting ''u1'' ''meeting-agent'' []) = Inr 1 \<and>
   instances_of (snd (createAgentInstance demo_meeting ''u1'' ''meeting-agent'' [])) ''u1''
     ''meeting-agent'' = [0, 1]"
  by code_simp

text \<open>
  C4 (as the code has it): when the registry holds an instance for the pair (user id, unit
  type) of a registered unit type, \<^verbatim>\<open>createAgentInstance\<close> does not fail with an error of
  the kind \<^verbatim>\<open>AlreadyExists\<close> (the only error it can then throw is that of a rejected
  database upsert). It returns a new instance id, different from the existing one. The
  existing instances keep their ids, configurations and statuses: the registry is the old
  one followed by the new instance, which is stored also when the upsert is rejected.
\<close>

theorem createAgentInstance_existing_pair:
  assumes "agents s aid = Some d"
    and "(k, i) \<in> set (agentInstances s)" and "userId i = uid" and "agentId i = aid"
    and "uuid_counter s \<notin> fst ` set (agentInstances s)"
  shows "fst (createAgentInstance s uid aid cfg) =
           (if db_resolves s then Inr (uuid_counter s) else Inl DbError) \<and>
         uuid_counter s \<noteq> k \<and>
         agentInstances (snd (createAgentInstance s uid aid cfg)) =
           agentInstances s @
           [(uuid_counter s,
             new_agent (entry_class d) (uuid_counter s) uid aid
               (spread (def_configuration (entry_definition d)) cfg))]"
proof -
  have "k \<in> fst ` set (agentInstances s)" using assms(2) by force
  then have "uuid_counter s \<noteq> k" using assms(5) by auto
  then show ?thesis
    using assms(1,5) by (simp add: createAgentInstance_registered Map_set_fresh)
qed

theorem createAgentInstance_existing_pair_witness:
  "(0, new_agent MeetingAgent 0 ''u1'' ''meeting-agent'' []) \<in> set (agentInstances demo_meeting) \<and>
   uuid_counter demo_meeting \<notin> fst ` set (agentInstances demo_meeting) \<and>
   fst (createAgentInstance demo_meeting ''u1'' ''meeting-agent'' [(''k'', ''v'')]) = Inr 1 \<and>
   agentInstances (snd (createAgentInstance demo_meeting ''u1'' ''meeting-agent'' [(''k'', ''v'')])) =
     [(0, new_agent MeetingAgent 0 ''u1'' ''meeting-agent'' []),
      (1, new_agent MeetingAgent 1 ''u1'' ''meeting-agent'' [(''k'', ''v'')])]"
proof -
  note a = demo_meeting_agents and c = demo_meeting_counter
  have m: "(0, new_agent MeetingAgent 0 ''u1'' ''meeting-agent'' []) \<in> set (agentInstances demo_meeting)"
    by (simp add: demo_meeting_instances)
  have u: "userId (new_agent MeetingAgent 0 ''u1'' ''meeting-agent'' []) = ''u1''"
    and g: "agentId (new_agent MeetingAgent 0 ''u1'' ''meeting-agent'' []) = ''meeting-agent''"
    by (simp_all add: new_agent_def)
  have f: "uuid_counter demo_meeting \<notin> fst ` set (agentInstances demo_meeting)"
    by (simp add: c demo_meeting_instances)
  have r: "db_resolves demo_meeting" by code_simp
  show ?thesis
    using m f r createAgentInstance_existing_pair [OF a m u g f, of "[(''k'', ''v'')]"]
    by (simp add: c demo_meeting_instances spread_def)
qed

subsection \<open>Conflicts between running instances\<close>

text \<open>
  C3, evaluated on the code: user \<^verbatim>\<open>u1\<close> has a meeting agent with the status \<^verbatim>\<open>running\<close> and
  an idle task router; the rule table makes the two unit types conflict with each other.
  A run of the task router finds the conflict with instance \<open>0\<close>, the resolver answers
  \<^verbatim>\<open>pause\<close> for it, and yet instance \<open>0\<close> still has the status \<^verbatim>\<open>running\<close> when the task
  router is about to execute and after its run: \<^verbatim>\<open>pauseAgent\<close> changes the status only of
  an object that has a method \<^verbatim>\<open>pause\<close>, and no agent class defines one.
\<close>

theorem conflicting_instance_not_paused:
  "registry_summary demo_meeting_running =
     [(0, ''meeting-agent'', Running, 0), (1, ''task-router'', Idle, 0)] \<and>
   map (\<lambda>c. (inst_id (instance2 c), action (resolve c)))
     (checkConflicts demo_meeting_running (new_agent TaskRouterAgent 1 ''u1'' ''task-router'' [])) =
     [(0, ''pause'')] \<and>
   registry_summary (snd (runAgent_begin demo_meeting_running 1)) =
     [(0, ''meeting-agent'', Running, 0), (1, ''task-router'', Running, 0)] \<and>
   registry_summary (snd (runAgent demo_meeting_running 1 ok_call)) =
     [(0, ''meeting-agent'', Running, 0), (1, ''task-router'', Idle, 1)]"
  by code_simp

subsection \<open>Failing runs\<close>

text \<open>
  Counterexample to C5 as stated. A failing run leaves no trace in the performance tracker: after the meeting agent's unit
  has thrown, the tracker has no entry for the instance.
\<close>

theorem failed_run_not_recorded:
  "fst (runAgent demo_meeting 0 failing_call) = Inl (ExecutionError ''boom'') \<and>
   performanceTracker (snd (runAgent demo_meeting 0 failing_call)) 0 = None"
  by code_simp

text \<open>
  C5 (as the code has it): when the unit of an instance of the registry throws, \<^verbatim>\<open>runAgent\<close>
  throws that error to its caller and leaves the instance with the status \<^verbatim>\<open>error\<close>. The
  failure is counted in the metrics of the instance itself (\<^verbatim>\<open>updateMetrics\<close> with
  \<^verbatim>\<open>success = false\<close>, before the error is thrown again); the performance tracker is not
  called and its map is unchanged: \<^verbatim>\<open>recordExecution\<close> is called for returned results
  only.
\<close>

theorem runAgent_failure:
  assumes "map_of (agentInstances s) iid = Some inst" and "inv_outcome call = Threw e"
  shows "fst (runAgent s iid call) = Inl (ExecutionError e) \<and>
         map_of (agentInstances (snd (runAgent s iid call))) iid =
           Some (inst\<lparr>metrics := updateMetrics False (inv_elapsed call) (inv_metrics_clock call)
                                     (metrics inst),
                      status := Error\<rparr>) \<and>
         performanceTracker (snd (runAgent s iid call)) = performanceTracker s"
  using assms(1)
  by (simp add: runAgent_found [OF assms(1)] runAgent_end_threw [OF assms(2)]
        runAgent_begin_found(2,3) map_of_assign)

theorem runAgent_failure_witness:
  "map_of (agentInstances demo_meeting) 0 = Some (new_agent MeetingAgent 0 ''u1'' ''meeting-agent'' []) \<and>
   inv_outcome failing_call = Threw ''boom'' \<and>
   fst (runAgent demo_meeting 0 failing_call) = Inl (ExecutionError ''boom'') \<and>
   map_of (agentInstances (snd (runAgent demo_meeting 0 failing_call))) 0 =
     Some ((new_agent MeetingAgent 0 ''u1'' ''meeting-agent'' [])
             \<lparr>metrics := \<lparr>totalRuns = 1, successRate = 0, averageExecutionTime = 7,
                         lastRun = Some 200\<rparr>,
               status := Error\<rparr>) \<and>
   performanceTracker (snd (runAgent demo_meeting 0 failing_call)) = performanceTracker demo_meeting"
proof -
  have h: "map_of (agentInstances demo_meeting) 0 =
             Some (new_agent MeetingAgent 0 ''u1'' ''meeting-agent'' [])"
    by (simp add: demo_meeting_instances)
  have o: "inv_outcome failing_call = Threw ''boom''" by (simp add: failing_call_def)
  show ?thesis
    using h o runAgent_failure [OF h o]
    by (simp add: new_agent_def updateMetrics_def failing_call_def)
qed

subsection \<open>The scheduler's tick\<close>

lemma runAgent_threw:
  assumes "inv_outcome call = Threw e"
  shows "\<exists>x. fst (runAgent s iid call) = Inl x"
proof (cases "map_of (agentInstances s) iid")
  case None
  then show ?thesis by (simp add: runAgent_missing)
next
  case (Some inst)
  then show ?thesis by (simp add: runAgent_found runAgent_end_threw(1) [OF assms])
qed

lemma run_rows_failing_head:
  assumes "inv_outcome call = Threw e"
  shows "run_rows s ((row, call) # rest) = run_rows s [(row, call)]"
proof (cases "createAgentInstance s (row_user_id row) (row_agent_id row) (row_settings row)")
  case (Pair r s1)
  show ?thesis
  proof (cases r)
    case (Inl x)
    with Pair show ?thesis by simp
  next
    case (Inr instanceId)
    obtain q s2 where ra: "runAgent s1 instanceId call = (q, s2)"
      by (cases "runAgent s1 instanceId call")
    with runAgent_threw [OF assms, of s1 instanceId] obtain x where "q = Inl x" by auto
    with Pair Inr ra show ?thesis by simp
  qed
qed

lemma run_rows_stops:
  assumes "inv_outcome call = Threw e"
  shows "run_rows s (before @ (row, call) # rest) = run_rows s (before @ [(row, call)])"
proof (induction before arbitrary: s)
  case Nil
  show ?case using run_rows_failing_head [OF assms] by simp
next
  case (Cons p before)
  obtain row' call' where p: "p = (row', call')" by (cases p)
  show ?case unfolding p using Cons.IH
    by (simp split: prod.splits sum.splits)
qed

lemma run_rows_failed:
  assumes "inv_outcome call = Threw e"
  shows "fst (run_rows s (before @ [(row, call)])) \<noteq> None"
proof (induction before arbitrary: s)
  case Nil
  show ?case
  proof (cases "createAgentInstance s (row_user_id row) (row_agent_id row) (row_settings row)")
    case (Pair r s1)
    show ?thesis
    proof (cases r)
      case (Inl x)
      with Pair show ?thesis by simp
    next
      case (Inr instanceId)
      obtain q s2 where ra: "runAgent s1 instanceId call = (q, s2)"
        by (cases "runAgent s1 instanceId call")
      with runAgent_threw [OF assms, of s1 instanceId] obtain x where "q = Inl x" by auto
      with Pair Inr ra show ?thesis by simp
    qed
  qed
next
  case (Cons p before)
  obtain row' call' where p: "p = (row', call')" by (cases p)
  show ?case unfolding p using Cons.IH
    by (simp split: prod.splits sum.splits)
qed

text \<open>While the database resolves every query, it goes on doing so, and the catalogue keeps
  its unit types.\<close>

lemma db_query_resolving:
  "db_outcomes s = [] \<Longrightarrow> db_query s q = (True, s\<lparr>db_log := db_log s @ [q]\<rparr>)"
  by (simp add: db_query_def)

lemma updateAgentStatus_db:
  "db_outcomes s = [] \<Longrightarrow> db_outcomes (updateAgentStatus s iid st) = []"
  by (simp add: updateAgentStatus_def db_query_def emit_def split: option.splits)

lemma resolveConflicts_more_frame:
  "db_outcomes (resolveConflicts s cs inst) = db_outcomes s"
  by (induction s cs inst rule: resolveConflicts.induct)
     (simp_all add: pauseAgent_noop queueAgent_def emit_frame)

lemma runAgent_begin_db:
  assumes "db_outcomes s = []"
  shows "db_outcomes (snd (runAgent_begin s iid)) = []"
proof (cases "map_of (agentInstances s) iid")
  case None
  with assms show ?thesis by (simp add: runAgent_begin_missing)
next
  case (Some inst)
  with assms show ?thesis
    by (simp add: runAgent_begin_def Let_def run_begin_def updateAgentStatus_db
          resolveConflicts_more_frame)
qed

lemma runAgent_end_db:
  assumes "db_outcomes s = []"
  shows "db_outcomes (snd (runAgent_end s iid inst call)) = []"
  using assms
  by (cases "inv_outcome call")
     (simp_all add: runAgent_end_def run_settle_def Let_def updateAgentStatus_db emit_frame)

lemma runAgent_db:
  assumes "db_outcomes s = []"
  shows "db_outcomes (snd (runAgent s iid call)) = []"
proof -
  obtain r s1 where b: "runAgent_begin s iid = (r, s1)" by (cases "runAgent_begin s iid")
  have "db_outcomes s1 = []" using runAgent_begin_db [OF assms, of iid] b by simp
  then show ?thesis using b by (cases r) (simp_all add: runAgent_def runAgent_end_db)
qed

lemma runAgent_end_agents: "agents (snd (runAgent_end s iid inst call)) = agents s"
  by (cases "inv_outcome call")
     (simp_all add: runAgent_end_def run_settle_def Let_def updateAgentStatus_frame emit_frame)

lemma runAgent_begin_agents: "agents (snd (runAgent_begin s iid)) = agents s"
proof (cases "map_of (agentInstances s) iid")
  case None
  then show ?thesis by (simp add: runAgent_begin_missing)
next
  case (Some inst)
  then show ?thesis
    by (simp add: runAgent_begin_def Let_def run_begin_def updateAgentStatus_frame
          resolveConflicts_frame)
qed

lemma runAgent_agents: "agents (snd (runAgent s iid call)) = agents s"
proof -
  obtain r s1 where b: "runAgent_begin s iid = (r, s1)" by (cases "runAgent_begin s iid")
  have "agents s1 = agents s" using runAgent_begin_agents [of s iid] b by simp
  then show ?thesis using b by (cases r) (simp_all add: runAgent_def runAgent_end_agents)
qed

lemma createAgentInstance_resolving:
  assumes "db_outcomes s = []" and "agents s aid = Some d"
  shows "fst (createAgentInstance s uid aid cfg) = Inr (uuid_counter s)"
    and "db_outcomes (snd (createAgentInstance s uid aid cfg)) = []"
    and "(agents (snd (createAgentInstance s uid aid cfg)) a = None) = (agents s a = None)"
  using assms
  by (simp_all add: createAgentInstance_def uuidv4_def Let_def db_query_def emit_def)

text \<open>What a run leaves of its instance.\<close>

lemma runAgent_instance:
  assumes "map_of (agentInstances s) iid = Some inst"
  shows "agentInstances (snd (runAgent s iid call)) =
           assign (agentInstances s) iid
             (\<lambda>i. i\<lparr>metrics := updateMetrics (returned call) (inv_elapsed call)
                                   (inv_metrics_clock call) (metrics i),
                     status := (if returned call then Idle else Error)\<rparr>)"
proof -
  have comp: "assign (assign xs k f) k g = assign xs k (g \<circ> f)" for xs :: "(instance_id \<times> agent_instance) list" and k f g
    by (induction xs) (auto simp: assign_def)
  show ?thesis
  proof (cases "inv_outcome call")
    case (Returned r)
    then show ?thesis
      by (simp add: runAgent_found [OF assms] runAgent_end_returned(2) runAgent_begin_found(2) [OF assms]
            comp returned_def comp_def)
  next
    case (Threw e)
    then show ?thesis
      by (simp add: runAgent_found [OF assms] runAgent_end_threw(2) runAgent_begin_found(2) [OF assms]
            comp returned_def comp_def)
  qed
qed


lemma runAgent_result:
  assumes "map_of (agentInstances s) iid = Some inst"
  shows "fst (runAgent s iid call) = settled call"
  by (simp add: runAgent_found [OF assms] runAgent_end_settled)

text \<open>One row of a tick: the instance is created under the next id and run at once.\<close>

lemma map_of_append_fresh: "k \<notin> fst ` set xs \<Longrightarrow> map_of (xs @ [(k, v)]) k = Some v"
  by (induction xs) auto

lemma assign_append_fresh: "k \<notin> fst ` set xs \<Longrightarrow> assign (xs @ [(k, v)]) k f = xs @ [(k, f v)]"
  by (induction xs) (auto simp: assign_def)

lemma row_created:
  assumes "db_outcomes s = []" and "agents s (row_agent_id row) \<noteq> None"
  shows "createAgentInstance s (row_user_id row) (row_agent_id row) (row_settings row) =
           (Inr (uuid_counter s),
            snd (createAgentInstance s (row_user_id row) (row_agent_id row) (row_settings row)))"
proof -
  from assms(2) obtain d where d: "agents s (row_agent_id row) = Some d" by auto
  show ?thesis
    using createAgentInstance_resolving(1) [OF assms(1) d, of "row_user_id row" "row_settings row"]
    by (simp add: prod_eq_iff)
qed

lemma row_ran:
  fixes s :: orchestrator and row :: auto_run_row and call :: invocation
  assumes db: "db_outcomes s = []" and ids: "ids_below_counter s"
    and reg: "agents s (row_agent_id row) \<noteq> None"
  defines "s1 \<equiv> snd (createAgentInstance s (row_user_id row) (row_agent_id row) (row_settings row))"
  defines "s2 \<equiv> snd (runAgent s1 (uuid_counter s) call)"
  shows "runAgent s1 (uuid_counter s) call = (settled call, s2)"
    and "registry_summary s2 =
           registry_summary s @
           [(uuid_counter s, row_agent_id row, if returned call then Idle else Error, 1)]"
    and "uuid_counter s2 = Suc (uuid_counter s)"
    and "db_outcomes s2 = []"
    and "ids_below_counter s2"
    and "(agents s2 a = None) = (agents s a = None)"
proof -
  from reg obtain d where d: "agents s (row_agent_id row) = Some d" by auto
  define k where "k = uuid_counter s"
  define new where "new = new_agent (entry_class d) k (row_user_id row) (row_agent_id row)
                            (spread (def_configuration (entry_definition d)) (row_settings row))"
  have fresh: "k \<notin> fst ` set (agentInstances s)"
    unfolding k_def using ids by (rule ids_below_counter_fresh)
  have i1: "agentInstances s1 = agentInstances s @ [(k, new)]"
    using fresh by (simp add: s1_def createAgentInstance_registered(2) [OF d] Map_set_fresh k_def new_def)
  have l1: "map_of (agentInstances s1) k = Some new"
    unfolding i1 using fresh by (rule map_of_append_fresh)
  have "fst (runAgent s1 k call) = settled call" using l1 by (rule runAgent_result)
  then show "runAgent s1 (uuid_counter s) call = (settled call, s2)"
    by (simp add: s2_def k_def prod_eq_iff)
  have "agentInstances s2 =
          assign (agentInstances s1) k
            (\<lambda>i. i\<lparr>metrics := updateMetrics (returned call) (inv_elapsed call)
                                  (inv_metrics_clock call) (metrics i),
                    status := (if returned call then Idle else Error)\<rparr>)"
    using runAgent_instance [OF l1, of call] by (simp add: s2_def k_def)
  then have i2: "agentInstances s2 =
              agentInstances s @
              [(k, new\<lparr>metrics := updateMetrics (returned call) (inv_elapsed call)
                                     (inv_metrics_clock call) (metrics new),
                        status := (if returned call then Idle else Error)\<rparr>)]"
    by (simp add: i1 assign_append_fresh [OF fresh])
  show "registry_summary s2 =
           registry_summary s @
           [(uuid_counter s, row_agent_id row, if returned call then Idle else Error, 1)]"
    by (simp add: registry_summary_def i2 new_def new_agent_def updateMetrics_def Let_def k_def)
  show "uuid_counter s2 = Suc (uuid_counter s)"
    by (simp add: s2_def s1_def runAgent_keys(2) createAgentInstance_registered(3) [OF d])
  have db1: "db_outcomes s1 = []"
    unfolding s1_def using db d by (rule createAgentInstance_resolving(2))
  then show "db_outcomes s2 = []" unfolding s2_def by (rule runAgent_db)
  have "ids_below_counter s1" unfolding s1_def using ids by (rule ids_below_counter_create)
  then show "ids_below_counter s2" unfolding s2_def by (rule ids_below_counter_run)
  show "(agents s2 a = None) = (agents s a = None)"
    by (simp add: s2_def s1_def runAgent_agents createAgentInstance_resolving(3) [OF db d])
qed

text \<open>The rows whose units return are created and run one after the other, whatever
  follows them.\<close>

lemma run_rows_returned_prefix:
  assumes "db_outcomes s = []" and "ids_below_counter s"
    and "\<forall>(row, call) \<in> set before. agents s (row_agent_id row) \<noteq> None \<and> returned call"
  shows "\<exists>s'. run_rows s (before @ rows) = run_rows s' rows \<and>
               registry_summary s' =
                 registry_summary s @
                 map (\<lambda>(k, row, call). (k, row_agent_id row, Idle, 1))
                   (zip [uuid_counter s ..< uuid_counter s + length before] before) \<and>
               uuid_counter s' = uuid_counter s + length before \<and>
               db_outcomes s' = [] \<and> ids_below_counter s' \<and>
               (\<forall>a. (agents s' a = None) = (agents s a = None))"
  using assms
proof (induction before arbitrary: s)
  case Nil
  then show ?case by (intro exI [of _ s]) simp
next
  case (Cons p before)
  obtain row call where p: "p = (row, call)" by (cases p)
  from Cons.prems(3) p have reg: "agents s (row_agent_id row) \<noteq> None" and ret: "returned call"
    by auto
  define s1 where "s1 = snd (createAgentInstance s (row_user_id row) (row_agent_id row) (row_settings row))"
  define s2 where "s2 = snd (runAgent s1 (uuid_counter s) call)"
  note c = row_created [OF Cons.prems(1) reg, folded s1_def]
  note r = row_ran [where call = call, OF Cons.prems(1,2) reg, folded s1_def s2_def]
  from ret obtain res where "settled call = Inr res"
    by (auto simp: returned_def settled_def split: outcome.splits)
  then have step: "run_rows s ((row, call) # before @ rows) = run_rows s2 (before @ rows)"
    using c r(1) by simp
  have regs: "\<forall>(row, call) \<in> set before. agents s2 (row_agent_id row) \<noteq> None \<and> returned call"
    using Cons.prems(3) r(6) by auto
  from Cons.IH [OF r(4) r(5) regs] obtain s' where
    s': "run_rows s2 (before @ rows) = run_rows s' rows"
        "registry_summary s' =
           registry_summary s2 @
           map (\<lambda>(k, row, call). (k, row_agent_id row, Idle, 1))
             (zip [uuid_counter s2 ..< uuid_counter s2 + length before] before)"
        "uuid_counter s' = uuid_counter s2 + length before"
        "db_outcomes s' = []" "ids_below_counter s'"
        "\<forall>a. (agents s' a = None) = (agents s2 a = None)"
    by blast
  have "run_rows s ((p # before) @ rows) = run_rows s' rows"
    using step s'(1) p by simp
  moreover have "registry_summary s' =
                 registry_summary s @
                 map (\<lambda>(k, row, call). (k, row_agent_id row, Idle, 1))
                   (zip [uuid_counter s ..< uuid_counter s + length (p # before)] (p # before))"
    using s'(2) r(2) r(3) ret p by (simp del: upt_Suc add: upt_conv_Cons)
  moreover have "uuid_counter s' = uuid_counter s + length (p # before)"
    using s'(3) r(3) by simp
  moreover have "\<forall>a. (agents s' a = None) = (agents s a = None)"
    using s'(6) r(6) by simp
  ultimately show ?case using s'(4,5) by blast
qed

lemma run_rows_until_failure:
  assumes "db_outcomes s = []" and "ids_below_counter s"
    and "\<forall>(row, call) \<in> set before. agents s (row_agent_id row) \<noteq> None \<and> returned call"
    and "agents s (row_agent_id row) \<noteq> None" and "inv_outcome call = Threw e"
  shows "registry_summary (snd (run_rows s (before @ (row, call) # rest))) =
           registry_summary s @
           map (\<lambda>(k, row, call). (k, row_agent_id row, Idle, 1))
             (zip [uuid_counter s ..< uuid_counter s + length before] before) @
           [(uuid_counter s + length before, row_agent_id row, Error, 1)]"
proof -
  from run_rows_returned_prefix [OF assms(1-3), of "(row, call) # rest"] obtain s' where
    s': "run_rows s (before @ (row, call) # rest) = run_rows s' ((row, call) # rest)"
        "registry_summary s' =
           registry_summary s @
           map (\<lambda>(k, row, call). (k, row_agent_id row, Idle, 1))
             (zip [uuid_counter s ..< uuid_counter s + length before] before)"
        "uuid_counter s' = uuid_counter s + length before"
        "db_outcomes s' = []" "ids_below_counter s'"
        "\<forall>a. (agents s' a = None) = (agents s a = None)"
    by blast
  have reg: "agents s' (row_agent_id row) \<noteq> None" using s'(6) assms(4) by simp
  define s1 where "s1 = snd (createAgentInstance s' (row_user_id row) (row_agent_id row) (row_settings row))"
  define s2 where "s2 = snd (runAgent s1 (uuid_counter s') call)"
  note c = row_created [OF s'(4) reg, folded s1_def]
  note r = row_ran [where call = call, OF s'(4) s'(5) reg, folded s1_def s2_def]
  have nr: "\<not> returned call" and st: "settled call = Inl (ExecutionError e)"
    using assms(5) by (simp_all add: returned_def settled_def)
  have "run_rows s' ((row, call) # rest) = (Some (ExecutionError e), s2)"
    using c r(1) st by simp
  then show ?thesis using s'(1,2,3) r(2) nr by simp
qed

lemma demo_start_facts:
  "isRunning demo_start" "db_outcomes demo_start = []" "uuid_counter demo_start = 0"
  "registry_summary demo_start = []"
  "agents demo_start ''mail-summarizer'' \<noteq> None" "agents demo_start ''meeting-agent'' \<noteq> None"
  by code_simp+

text \<open>
  Counterexample to C6 as stated. When the run of the first selected row fails, the second row of the same tick is neither
  created nor run: only the meeting agent is in the registry after the tick.
\<close>

theorem scheduler_tick_skips_remaining:
  "registry_summary (scheduler_tick demo_start [(meeting_row, failing_call), (mail_row, ok_call)]) =
     [(0, ''meeting-agent'', Error, 1)]"
  by code_simp

text \<open>
  C6 (as the code has it): the tick has one \<^verbatim>\<open>try\<close> block around its whole loop. When the
  unit of a selected row throws, the error leaves the loop and is caught by the tick, which
  ends normally; the rows after the failing one are not looked at in this tick: the tick
  ends in the state it would have reached had the failing row been the last one. The rows
  before the failing one have been created and run. When the scheduler is running, the
  database resolves every query, the ids of the registry are below the counter, the unit
  types of the failing row and of the rows before it are registered and the units of the
  rows before it return, the registry after the tick is the old one, followed by one
  instance for each row before the failing one, in the order of the rows, idle and with
  one run, followed by the instance of the failing row, with one run and the status
  \<^verbatim>\<open>error\<close>; it has no instance for the rows after the failing one.
\<close>

theorem scheduler_tick_stops_at_failure:
  assumes "inv_outcome call = Threw e"
  shows "scheduler_tick s (before @ (row, call) # rest) = scheduler_tick s (before @ [(row, call)]) \<and>
         fst (run_rows s (before @ (row, call) # rest)) \<noteq> None \<and>
         (isRunning s \<and> db_outcomes s = [] \<and> ids_below_counter s \<and>
          (\<forall>(r, c) \<in> set before. agents s (row_agent_id r) \<noteq> None \<and> returned c) \<and>
          agents s (row_agent_id row) \<noteq> None \<longrightarrow>
            registry_summary (scheduler_tick s (before @ (row, call) # rest)) =
              registry_summary s @
              map (\<lambda>(k, r, c). (k, row_agent_id r, Idle, 1))
                (zip [uuid_counter s ..< uuid_counter s + length before] before) @
              [(uuid_counter s + length before, row_agent_id row, Error, 1)])"
proof -
  have a: "scheduler_tick s (before @ (row, call) # rest) = scheduler_tick s (before @ [(row, call)])"
    by (simp add: scheduler_tick_def run_rows_stops [OF assms, of _ before row rest]
          split: prod.splits)
  have b: "fst (run_rows s (before @ (row, call) # rest)) \<noteq> None"
    using run_rows_failed [OF assms, of s before row]
    by (simp add: run_rows_stops [OF assms, of s before row rest])
  have c: "registry_summary (scheduler_tick s (before @ (row, call) # rest)) =
              registry_summary s @
              map (\<lambda>(k, r, c). (k, row_agent_id r, Idle, 1))
                (zip [uuid_counter s ..< uuid_counter s + length before] before) @
              [(uuid_counter s + length before, row_agent_id row, Error, 1)]"
    if run: "isRunning s" and db: "db_outcomes s = []" and ids: "ids_below_counter s"
      and regs: "\<forall>(r, c) \<in> set before. agents s (row_agent_id r) \<noteq> None \<and> returned c"
      and reg: "agents s (row_agent_id row) \<noteq> None"
  proof -
    define s0 where "s0 = s\<lparr>db_log := db_log s @ [SelectAutoRunAgents]\<rparr>"
    have q: "db_query s SelectAutoRunAgents = (True, s0)"
      unfolding s0_def using db by (rule db_query_resolving)
    have t: "scheduler_tick s (before @ (row, call) # rest) =
               snd (run_rows s0 (before @ (row, call) # rest))"
      using run q by (simp add: scheduler_tick_def)
    have s0: "db_outcomes s0 = []" "ids_below_counter s0" "agents s0 = agents s"
      "uuid_counter s0 = uuid_counter s" "registry_summary s0 = registry_summary s"
      using db ids by (simp_all add: s0_def ids_below_counter_def registry_summary_def)
    show ?thesis
      unfolding t
      using run_rows_until_failure [OF s0(1) s0(2) _ _ assms, of before row rest] regs reg
      by (simp add: s0(3,4,5))
  qed
  from a b c show ?thesis by blast
qed

theorem scheduler_tick_stops_at_failure_witness:
  "inv_outcome failing_call = Threw ''boom'' \<and>
   isRunning demo_start \<and> db_outcomes demo_start = [] \<and> ids_below_counter demo_start \<and>
   agents demo_start (row_agent_id mail_row) \<noteq> None \<and> returned ok_call \<and>
   agents demo_start (row_agent_id meeting_row) \<noteq> None \<and>
   scheduler_tick demo_start [(mail_row, ok_call), (meeting_row, failing_call), (mail_row, ok_call)] =
     scheduler_tick demo_start [(mail_row, ok_call), (meeting_row, failing_call)] \<and>
   registry_summary
     (scheduler_tick demo_start
        [(mail_row, ok_call), (meeting_row, failing_call), (mail_row, ok_call)]) =
     [(0, ''mail-summarizer'', Idle, 1), (1, ''meeting-agent'', Error, 1)]"
proof -
  have o: "inv_outcome failing_call = Threw ''boom''" by (simp add: failing_call_def)
  have i: "ids_below_counter demo_start"
    unfolding demo_start_def by (rule ids_below_counter_new)
  have r: "returned ok_call" by (simp add: returned_def ok_call_def)
  have am: "agents demo_start (row_agent_id mail_row) \<noteq> None"
    using demo_start_facts(5) by (simp add: mail_row_def)
  have ag: "agents demo_start (row_agent_id meeting_row) \<noteq> None"
    using demo_start_facts(6) by (simp add: meeting_row_def)
  note t = scheduler_tick_stops_at_failure [OF o, of demo_start "[(mail_row, ok_call)]" meeting_row
        "[(mail_row, ok_call)]"]
  have e: "scheduler_tick demo_start
             [(mail_row, ok_call), (meeting_row, failing_call), (mail_row, ok_call)] =
           scheduler_tick demo_start [(mail_row, ok_call), (meeting_row, failing_call)]"
    using t [THEN conjunct1] by simp
  have c: "registry_summary
             (scheduler_tick demo_start
                [(mail_row, ok_call), (meeting_row, failing_call), (mail_row, ok_call)]) =
           [(0, ''mail-summarizer'', Idle, 1), (1, ''meeting-agent'', Error, 1)]"
    using t [THEN conjunct2, THEN conjunct2] i r am ag demo_start_facts(1,2,3,4)
    by (simp add: mail_row_def meeting_row_def)
  from o demo_start_facts(1,2) i am r ag e c show ?thesis by blast
qed

subsection \<open>Conflict detection\<close>

lemma no_self_conflict: "coordinationRules t = Some r \<Longrightarrow> t \<notin> set (conflicts r)"
  by (auto simp: coordinationRules_def split: if_splits)

lemma checkConflicts_loop_view:
  "map conflict_view (checkConflicts_loop rules c xs) =
     map (\<lambda>other. (c, other, ''medium''))
       (filter (\<lambda>other. userId other = userId c \<and> status other = Running \<and>
                         agentId other \<in> set (conflicts rules)) (map snd xs))"
  by (induction rules c xs rule: checkConflicts_loop.induct) (simp_all add: conflict_view_def)

text \<open>
  C7: for every candidate instance, \<^verbatim>\<open>checkConflicts\<close> returns exactly one conflict record of
  severity \<^verbatim>\<open>medium\<close> for each other instance that belongs to the same user, has the status
  \<^verbatim>\<open>running\<close> and whose unit type is in the candidate's conflict set, in the order of the
  registry, and no other record; it returns the empty list when the candidate's unit type
  has no rule. The loop of the code also visits the candidate itself; the candidate never
  yields a record, because no unit type of the rule table conflicts with itself.
\<close>

theorem checkConflicts_meets_spec:
  "map conflict_view (checkConflicts s candidate) = findConflicts_spec s candidate \<and>
   (coordinationRules (agentId candidate) = None \<longrightarrow> checkConflicts s candidate = [])"
proof (cases "coordinationRules (agentId candidate)")
  case None
  then show ?thesis by (simp add: checkConflicts_def findConflicts_spec_def conflict_set_def)
next
  case (Some rules)
  have "agentId candidate \<notin> set (conflicts rules)" using Some by (rule no_self_conflict)
  then have "filter (\<lambda>other. userId other = userId candidate \<and> status other = Running \<and>
                         agentId other \<in> set (conflicts rules)) xs =
        filter (\<lambda>other. other \<noteq> candidate \<and> userId other = userId candidate \<and>
                         status other = Running \<and> agentId other \<in> set (conflicts rules)) xs" for xs
    by (intro filter_cong) auto
  with Some show ?thesis
    by (simp add: checkConflicts_def findConflicts_spec_def conflict_set_def checkConflicts_loop_view)
qed

theorem checkConflicts_meets_spec_witness:
  "map conflict_view
     (checkConflicts demo_meeting_running (new_agent TaskRouterAgent 1 ''u1'' ''task-router'' [])) =
     [(new_agent TaskRouterAgent 1 ''u1'' ''task-router'' [],
       (new_agent MeetingAgent 0 ''u1'' ''meeting-agent'' [])\<lparr>status := Running\<rparr>, ''medium'')] \<and>
   coordinationRules ''unknown-unit'' = None \<and>
   checkConflicts demo_meeting_running (new_agent TaskRouterAgent 2 ''u1'' ''unknown-unit'' []) = []"
proof -
  have a: "findConflicts_spec demo_meeting_running
             (new_agent TaskRouterAgent 1 ''u1'' ''task-router'' []) =
     [(new_agent TaskRouterAgent 1 ''u1'' ''task-router'' [],
       (new_agent MeetingAgent 0 ''u1'' ''meeting-agent'' [])\<lparr>status := Running\<rparr>, ''medium'')]"
    by code_simp
  have h: "coordinationRules (agentId (new_agent TaskRouterAgent 2 ''u1'' ''unknown-unit'' [])) = None"
    by code_simp
  have h': "coordinationRules ''unknown-unit'' = None"
    by code_simp
  show ?thesis
    using a h h'
      checkConflicts_meets_spec [of demo_meeting_running
        "new_agent TaskRouterAgent 1 ''u1'' ''task-router'' []"]
      checkConflicts_meets_spec [of demo_meeting_running
        "new_agent TaskRouterAgent 2 ''u1'' ''unknown-unit'' []"]
    by simp
qed

subsection \<open>Metrics\<close>






text \<open>
  C9: for every user id and every history of recorded executions, the performance query of
  the orchestrator returns the same fixed values: \<^verbatim>\<open>totalAgents\<close> 4, \<^verbatim>\<open>activeAgents\<close> 3,
  \<^verbatim>\<open>averagePerformance\<close> 0.92, \<^verbatim>\<open>totalExecutions\<close> 156, \<^verbatim>\<open>successRate\<close> 0.94. Its result
  depends neither on the user id nor on what the tracker has recorded.
\<close>

theorem getAgentPerformance_fixed:
  "getAgentPerformance s uid =
     \<lparr>up_totalAgents = 4, up_activeAgents = 3, up_averagePerformance = 92 / 100,
      up_totalExecutions = 156, up_successRate = 94 / 100\<rparr> \<and>
   getAgentPerformance
     (s\<lparr>performanceTracker := record_history (performanceTracker s) history\<rparr>) uid' =
     getAgentPerformance s uid"
  by (simp add: getAgentPerformance_def getUserPerformance_def)

subsection \<open>Status updates\<close>

text \<open>
  C10: for an instance id that the registry does not hold, \<^verbatim>\<open>updateAgentStatus\<close> does
  nothing. It returns normally (the operation has no way to throw: it swallows every
  error), and the orchestrator is unchanged: the registry, the queries sent to the database
  and the events emitted, so no status event is emitted.
\<close>

theorem updateAgentStatus_unknown_noop:
  "map_of (agentInstances s) iid = None \<Longrightarrow> updateAgentStatus s iid st = s"
  by (simp add: updateAgentStatus_def)

theorem updateAgentStatus_unknown_noop_witness:
  "map_of (agentInstances demo_both) 7 = None \<and> updateAgentStatus demo_both 7 Paused = demo_both"
proof -
  have h: "map_of (agentInstances demo_both) 7 = None" by code_simp
  show ?thesis using h updateAgentStatus_unknown_noop [OF h, of Paused] by simp
qed

end
